theory Spec2Isabelle
  imports Complex_Main "HOL-Library.Sublist"
begin

section \<open>The fireworks animation of \<^verbatim>\<open>fireworks_app.py\<close>\<close>

text \<open>
  The program is one class, \<^verbatim>\<open>FireworksApp\<close>. Its methods are callbacks of a
  single-threaded timer loop: each one reads and updates the application object and the
  tkinter canvas, and may register one more callback with \<^verbatim>\<open>root.after\<close>.
  The embedding passes the application state explicitly and returns, beside the new
  state, the list of callbacks the method registered.

  Numbers: the rocket arguments \<^verbatim>\<open>x\<close>, \<^verbatim>\<open>y_start\<close>, \<^verbatim>\<open>y_target\<close> and the window
  dimensions are Python integers (\<^typ>\<open>int\<close>). Canvas coordinates and particle velocities
  are Python floats, that is IEEE 754 doubles: each is embedded as the \<^typ>\<open>real\<close> it
  denotes, and every product and sum the program computes on them is rounded.
\<close>

subsection \<open>Floating-point arithmetic\<close>

text \<open>
  \<open>double_round\<close> is the rounding of IEEE 754 binary64: to the nearest number with 53
  significant bits, a tie going to the even one. The exponent is not bounded, so overflow
  and subnormal numbers are left out; the numbers of this program lie between
  \<open>10\<^sup>-\<^sup>1\<^sup>8\<close> and \<open>10\<^sup>4\<close> in magnitude, or are zero.
\<close>

definition round_even :: "real \<Rightarrow> int" where
  "round_even y =
     (if y - of_int \<lfloor>y\<rfloor> < 1 / 2 then \<lfloor>y\<rfloor>
      else if 1 / 2 < y - of_int \<lfloor>y\<rfloor> then \<lfloor>y\<rfloor> + 1
      else if even \<lfloor>y\<rfloor> then \<lfloor>y\<rfloor> else \<lfloor>y\<rfloor> + 1)"

definition double_round :: "real \<Rightarrow> real" where
  "double_round x =
     (if x = 0 then 0
      else real_of_int (round_even (x / 2 powr real_of_int (\<lfloor>log 2 \<bar>x\<bar>\<rfloor> - 52))) *
           2 powr real_of_int (\<lfloor>log 2 \<bar>x\<bar>\<rfloor> - 52))"

text \<open>
  The arithmetic is a parameter of the model: \<open>fl\<close> rounds the exact result of a
  product or a sum, \<open>fcos\<close> and \<open>fsin\<close> are \<^verbatim>\<open>math.cos\<close> and \<^verbatim>\<open>math.sin\<close>.
  \<open>ieee\<close> is the arithmetic of the program; the C library's cosine and sine, which are
  not part of the source, are taken as correctly rounded there, and a theorem that depends
  on them assumes an error bound only. \<open>exact\<close> is arithmetic without rounding, the
  one in which the specification writes its formulas.
\<close>

record arith =
  fl :: "real \<Rightarrow> real"
  fcos :: "real \<Rightarrow> real"
  fsin :: "real \<Rightarrow> real"

definition ieee :: arith where
  "ieee = \<lparr>fl = double_round,
            fcos = (\<lambda>t. double_round (cos t)),
            fsin = (\<lambda>t. double_round (sin t))\<rparr>"

definition exact :: arith where
  "exact = \<lparr>fl = (\<lambda>x. x), fcos = cos, fsin = sin\<rparr>"

text \<open>The literal \<^verbatim>\<open>0.1\<close> of the source: the double nearest to one tenth.\<close>

definition tenth :: "arith \<Rightarrow> real" where
  "tenth ar = fl ar (1 / 10)"

subsection \<open>The drawing surface\<close>

text \<open>
  Modelled from the spec: the tkinter canvas is an external collaborator of the program
  and not part of its source. Section 6 of the specification fixes its contract: a shape
  is created with a bounding box and a colour and gets a handle, it is moved by a relative
  offset, deleted by handle, and asked for its bounding box, the answer being empty once
  the shape is deleted. Handles are issued by a counter and never reused; moving or
  deleting a handle that names no shape does nothing. A move adds the offset to each
  coordinate, in doubles.
\<close>

record item =
  bbox :: "real \<times> real \<times> real \<times> real"
  fill :: string
  outline :: string

record canvas =
  items :: "nat \<rightharpoonup> item"
  next_id :: nat

definition create_oval ::
  "canvas \<Rightarrow> real \<Rightarrow> real \<Rightarrow> real \<Rightarrow> real \<Rightarrow> string \<Rightarrow> string \<Rightarrow> nat \<times> canvas" where
  "create_oval c x1 y1 x2 y2 f ol =
     (next_id c,
      c\<lparr>items := (items c)(next_id c \<mapsto> \<lparr>bbox = (x1, y1, x2, y2), fill = f, outline = ol\<rparr>),
        next_id := Suc (next_id c)\<rparr>)"

definition shift ::
  "arith \<Rightarrow> real \<Rightarrow> real \<Rightarrow> real \<times> real \<times> real \<times> real \<Rightarrow> real \<times> real \<times> real \<times> real" where
  "shift ar dx dy b =
     (case b of (x1, y1, x2, y2) \<Rightarrow>
        (fl ar (x1 + dx), fl ar (y1 + dy), fl ar (x2 + dx), fl ar (y2 + dy)))"

definition canvas_move :: "arith \<Rightarrow> canvas \<Rightarrow> nat \<Rightarrow> real \<Rightarrow> real \<Rightarrow> canvas" where
  "canvas_move ar c i dx dy =
     (case items c i of
        None \<Rightarrow> c
      | Some it \<Rightarrow> c\<lparr>items := (items c)(i \<mapsto> it\<lparr>bbox := shift ar dx dy (bbox it)\<rparr>)\<rparr>)"

definition canvas_delete :: "canvas \<Rightarrow> nat \<Rightarrow> canvas" where
  "canvas_delete c i = c\<lparr>items := (items c)(i := None)\<rparr>"

definition canvas_coords :: "canvas \<Rightarrow> nat \<Rightarrow> real list" where
  "canvas_coords c i =
     (case items c i of
        None \<Rightarrow> []
      | Some it \<Rightarrow> (case bbox it of (x1, y1, x2, y2) \<Rightarrow> [x1, y1, x2, y2]))"

subsection \<open>The application object\<close>

datatype py_error = KeyError | IndexError | ValueError

record app =
  width :: int
  height :: int
  canvas :: canvas
  geometry :: "int \<times> int"
  resolution_var :: string

text \<open>The dictionary \<^verbatim>\<open>self.resolutions\<close>, in the order it is written.\<close>

definition resolutions :: "(string \<times> int \<times> int) list" where
  "resolutions =
     [(''360P'', (800, 600)),
      (''HD'', (1280, 720)),
      (''FULLHD'', (1920, 1080)),
      (''2K'', (2560, 1440)),
      (''4K'', (3840, 2160))]"

text \<open>
  \<^verbatim>\<open>__init__\<close>. The argument \<open>monitors\<close> is what \<^verbatim>\<open>screeninfo.get_monitors()\<close> returns,
  each monitor as its (width, height); indexing an empty list raises. The default of
  \<^verbatim>\<open>dict.get\<close> is evaluated before the lookup, as Python evaluates arguments.
\<close>

definition init :: "(int \<times> int) list \<Rightarrow> string \<Rightarrow> py_error + app" where
  "init monitors resolution =
     (case monitors of
        [] \<Rightarrow> Inl IndexError
      | (screen_width, screen_height) # _ \<Rightarrow>
          (case map_of resolutions ''HD'' of
             None \<Rightarrow> Inl KeyError
           | Some dflt \<Rightarrow>
               (case (case map_of resolutions resolution of Some d \<Rightarrow> d | None \<Rightarrow> dflt) of
                  (w, h) \<Rightarrow>
                    Inr \<lparr>width = min w (screen_width - 50),
                         height = min h (screen_height - 50),
                         canvas = \<lparr>items = Map.empty, next_id = 1\<rparr>,
                         geometry = (min w (screen_width - 50), min h (screen_height - 50)),
                         resolution_var = resolution\<rparr>)))"

text \<open>\<^verbatim>\<open>change_resolution\<close>: the table is indexed first, the monitor list after.\<close>

definition change_resolution :: "(int \<times> int) list \<Rightarrow> app \<Rightarrow> string \<Rightarrow> py_error + app" where
  "change_resolution monitors a selected_resolution =
     (case map_of resolutions selected_resolution of
        None \<Rightarrow> Inl KeyError
      | Some (w, h) \<Rightarrow>
          (case monitors of
             [] \<Rightarrow> Inl IndexError
           | (screen_width, screen_height) # _ \<Rightarrow>
               Inr (a\<lparr>width := min w (screen_width - 50),
                      height := min h (screen_height - 50),
                      geometry := (min w (screen_width - 50), min h (screen_height - 50))\<rparr>)))"

subsection \<open>Callbacks and random draws\<close>

type_synonym particle = "nat \<times> real \<times> real"

text \<open>
  A callback registered with \<^verbatim>\<open>root.after\<close>, with its bound arguments; a registration
  is the delay in milliseconds and the callback.
\<close>

datatype callback =
  Animate_rocket nat int int int
| Animate_explosion "particle list"

type_synonym scheduled = "(nat \<times> callback) list"

text \<open>
  The three random values one iteration of the loop of \<^verbatim>\<open>explode\<close> draws:
  \<^verbatim>\<open>random.uniform(0, 2 * math.pi)\<close>, \<^verbatim>\<open>random.uniform(20, 100)\<close> and the index
  \<^verbatim>\<open>random.choice\<close> picks. The source of randomness is a parameter: draw \<open>i\<close> belongs to
  iteration \<open>i\<close>. \<open>draw_ok\<close> is the contract of the library functions.
\<close>

record draw =
  angle :: real
  distance :: real
  choice :: nat

definition colors :: "string list" where
  "colors = [''red'', ''orange'', ''yellow'', ''green'', ''blue'', ''purple'', ''white'']"

definition draw_ok :: "draw \<Rightarrow> bool" where
  "draw_ok d =
     (0 \<le> angle d \<and> angle d \<le> 2 * pi \<and> 20 \<le> distance d \<and> distance d \<le> 100 \<and>
      choice d < length colors)"

subsection \<open>The explosion\<close>

definition in_bounds :: "int \<Rightarrow> int \<Rightarrow> real list \<Rightarrow> bool" where
  "in_bounds w h pos =
     (0 \<le> pos ! 0 \<and> pos ! 0 \<le> real_of_int w \<and> 0 \<le> pos ! 1 \<and> pos ! 1 \<le> real_of_int h)"

text \<open>
  The body of the loop of \<^verbatim>\<open>animate_explosion\<close>, on the canvas and the list
  \<^verbatim>\<open>remaining_particles\<close>. The second position query is on a shape that the first one
  found and that was only moved since, so \<^verbatim>\<open>pos[0]\<close> and \<^verbatim>\<open>pos[1]\<close> exist
  (lemma \<open>coords_after_move\<close> below).
\<close>

definition advance_body ::
  "arith \<Rightarrow> int \<Rightarrow> int \<Rightarrow> particle \<Rightarrow> canvas \<times> particle list \<Rightarrow> canvas \<times> particle list" where
  "advance_body ar w h p s =
     (case p of (particle, dx, dy) \<Rightarrow>
      (case s of (c, remaining_particles) \<Rightarrow>
         if canvas_coords c particle \<noteq> [] then
           (let c1 = canvas_move ar c particle (fl ar (dx * tenth ar)) (fl ar (dy * tenth ar));
                pos = canvas_coords c1 particle
            in if \<not> in_bounds w h pos
               then (canvas_delete c1 particle, remaining_particles)
               else (c1, remaining_particles @ [(particle, dx, dy)]))
         else (canvas_delete c particle, remaining_particles)))"

text \<open>The condition under which the loop body keeps a particle, read on the canvas it meets.\<close>

definition survives :: "arith \<Rightarrow> int \<Rightarrow> int \<Rightarrow> canvas \<Rightarrow> particle \<Rightarrow> bool" where
  "survives ar w h c p =
     (case p of (particle, dx, dy) \<Rightarrow>
        canvas_coords c particle \<noteq> [] \<and>
        in_bounds w h
          (canvas_coords
             (canvas_move ar c particle (fl ar (dx * tenth ar)) (fl ar (dy * tenth ar))) particle))"

definition advance_particles :: "arith \<Rightarrow> app \<Rightarrow> particle list \<Rightarrow> canvas \<times> particle list" where
  "advance_particles ar a particles =
     fold (advance_body ar (width a) (height a)) particles (canvas a, [])"

definition animate_explosion :: "arith \<Rightarrow> app \<Rightarrow> particle list \<Rightarrow> app \<times> scheduled" where
  "animate_explosion ar a particles =
     (case advance_particles ar a particles of
        (c, remaining_particles) \<Rightarrow>
          (a\<lparr>canvas := c\<rparr>,
           if remaining_particles \<noteq> [] then [(50, Animate_explosion remaining_particles)]
           else []))"

text \<open>The body of the loop of \<^verbatim>\<open>explode\<close>, and the loop over \<^verbatim>\<open>range(30)\<close>.\<close>

definition explode_body ::
  "arith \<Rightarrow> real \<Rightarrow> real \<Rightarrow> draw \<Rightarrow> canvas \<times> particle list \<Rightarrow> canvas \<times> particle list" where
  "explode_body ar x y_target d s =
     (case s of (c, particles) \<Rightarrow>
        (let dx = fl ar (distance d * fcos ar (angle d));
             dy = fl ar (distance d * fsin ar (angle d));
             color = colors ! choice d
         in case create_oval c x y_target (x + 5) (y_target + 5) color color of
              (particle, c') \<Rightarrow> (c', particles @ [(particle, dx, dy)])))"

definition explode_particles ::
  "arith \<Rightarrow> (nat \<Rightarrow> draw) \<Rightarrow> canvas \<Rightarrow> int \<Rightarrow> int \<Rightarrow> canvas \<times> particle list" where
  "explode_particles ar rnd c x y_target =
     fold (explode_body ar (real_of_int x) (real_of_int y_target)) (map rnd [0..<30]) (c, [])"

definition explode :: "arith \<Rightarrow> (nat \<Rightarrow> draw) \<Rightarrow> app \<Rightarrow> nat \<Rightarrow> int \<Rightarrow> int \<Rightarrow> app \<times> scheduled" where
  "explode ar rnd a rocket x y_target =
     (case explode_particles ar rnd (canvas_delete (canvas a) rocket) x y_target of
        (c, particles) \<Rightarrow> animate_explosion ar (a\<lparr>canvas := c\<rparr>) particles)"

subsection \<open>The rocket\<close>

definition animate_rocket ::
  "arith \<Rightarrow> (nat \<Rightarrow> draw) \<Rightarrow> app \<Rightarrow> nat \<Rightarrow> int \<Rightarrow> int \<Rightarrow> int \<Rightarrow> app \<times> scheduled" where
  "animate_rocket ar rnd a rocket x y_start y_target =
     (if y_start > y_target
      then (a\<lparr>canvas := canvas_move ar (canvas a) rocket 0 (- 10)\<rparr>,
            [(30, Animate_rocket rocket x (y_start - 10) y_target)])
      else explode ar rnd a rocket x y_target)"

text \<open>
  \<^verbatim>\<open>create_rocket\<close>. The arguments \<open>x\<close> and \<open>y_target\<close> are the values the two calls of
  \<^verbatim>\<open>random.randint\<close> return; \<^verbatim>\<open>randint(100, self.width - 100)\<close> raises on an empty
  range. The first call of \<^verbatim>\<open>animate_rocket\<close> is made directly, not through the timer.
\<close>

definition create_rocket ::
  "arith \<Rightarrow> (nat \<Rightarrow> draw) \<Rightarrow> app \<Rightarrow> int \<Rightarrow> int \<Rightarrow> py_error + app \<times> scheduled" where
  "create_rocket ar rnd a x y_target =
     (if width a - 100 < 100 then Inl ValueError
      else
        (let y_start = height a
         in case create_oval (canvas a) (real_of_int x - 2) (real_of_int y_start - 10)
                   (real_of_int x + 2) (real_of_int y_start + 10) ''white'' ''white'' of
              (rocket, c) \<Rightarrow>
                Inr (animate_rocket ar rnd (a\<lparr>canvas := c\<rparr>) rocket x y_start y_target)))"

subsection \<open>Running the registered callbacks\<close>

fun dispatch :: "arith \<Rightarrow> (nat \<Rightarrow> draw) \<Rightarrow> app \<Rightarrow> callback \<Rightarrow> app \<times> scheduled" where
  "dispatch ar rnd a (Animate_rocket rocket x y_start y_target) =
     animate_rocket ar rnd a rocket x y_start y_target"
| "dispatch ar rnd a (Animate_explosion particles) = animate_explosion ar a particles"

text \<open>
  \<open>run_frames n\<close> fires the next \<open>n\<close> registered callbacks, oldest first, each one
  queueing what it registers. A rocket and an explosion keep at most one callback
  registered, so for the chain of one entity this is the order of the timer loop; a frame
  is one fired callback. With nothing registered, nothing runs.
\<close>

fun run_frames ::
  "nat \<Rightarrow> arith \<Rightarrow> (nat \<Rightarrow> draw) \<Rightarrow> app \<Rightarrow> scheduled \<Rightarrow> app \<times> scheduled" where
  "run_frames 0 ar rnd a q = (a, q)"
| "run_frames (Suc n) ar rnd a [] = (a, [])"
| "run_frames (Suc n) ar rnd a ((delay, cb) # q) =
     (case dispatch ar rnd a cb of (a', s) \<Rightarrow> run_frames n ar rnd a' (q @ s))"

text \<open>
  One frame of an explosion as a function of the application and the particle list the
  callback holds: what \<^verbatim>\<open>animate_explosion\<close> does to the state, and the list it would
  pass on. Its iterates describe the frames of one explosion.
\<close>

definition explosion_step :: "arith \<Rightarrow> app \<times> particle list \<Rightarrow> app \<times> particle list" where
  "explosion_step ar s =
     (case s of (a, particles) \<Rightarrow>
        (case advance_particles ar a particles of
           (c, remaining_particles) \<Rightarrow> (a\<lparr>canvas := c\<rparr>, remaining_particles)))"

text \<open>
  The state \<open>n\<close> timer callbacks after a call of \<^verbatim>\<open>explode\<close>, which runs the first frame of
  its explosion itself: the explosion has then been through \<open>n + 1\<close> frames.
\<close>

definition after_explode ::
  "arith \<Rightarrow> (nat \<Rightarrow> draw) \<Rightarrow> app \<Rightarrow> nat \<Rightarrow> int \<Rightarrow> int \<Rightarrow> nat \<Rightarrow> app \<times> scheduled" where
  "after_explode ar rnd a rocket x y_target n =
     (case explode ar rnd a rocket x y_target of (a', q) \<Rightarrow> run_frames n ar rnd a' q)"

text \<open>The particles held by the registered explosion callbacks.\<close>

fun callback_particles :: "callback \<Rightarrow> particle list" where
  "callback_particles (Animate_explosion particles) = particles"
| "callback_particles (Animate_rocket rocket x y_start y_target) = []"

definition queued_particles :: "scheduled \<Rightarrow> particle list" where
  "queued_particles q = concat (map (\<lambda>(delay, cb). callback_particles cb) q)"

subsection \<open>A concrete state\<close>

text \<open>
  A window of 800 by 600 whose canvas holds one red particle, handle 2, at the place where
  an explosion at (400, 150) creates it (handle 1 was the rocket); and a source of
  randomness that always draws the angle 0, the distance 50 and the first colour.
\<close>

definition example_canvas :: canvas where
  "example_canvas =
     \<lparr>items = [2 \<mapsto> \<lparr>bbox = (400, 150, 405, 155), fill = ''red'', outline = ''red''\<rparr>],
      next_id = 3\<rparr>"

definition example_app :: app where
  "example_app =
     \<lparr>width = 800, height = 600, canvas = example_canvas, geometry = (800, 600),
      resolution_var = ''360P''\<rparr>"

definition example_rnd :: "nat \<Rightarrow> draw" where
  "example_rnd i = \<lparr>angle = 0, distance = 50, choice = 0\<rparr>"

text \<open>Draws of the angle 0 and the distance 21, whose tenth is not a double.\<close>

definition example_rnd21 :: "nat \<Rightarrow> draw" where
  "example_rnd21 i = \<lparr>angle = 0, distance = 21, choice = 0\<rparr>"

section \<open>Rounding to a double\<close>

lemma round_even_int: "round_even (of_int k) = k"
  by (simp add: round_even_def)

lemma round_even_err: "\<bar>real_of_int (round_even y) - y\<bar> \<le> 1 / 2"
proof -
  define r where "r = y - of_int \<lfloor>y\<rfloor>"
  have r: "0 \<le> r" "r < 1" unfolding r_def by linarith+
  consider "r < 1 / 2" | "1 / 2 < r" | "r = 1 / 2" by linarith
  then show ?thesis
  proof cases
    case 1
    then have "round_even y = \<lfloor>y\<rfloor>" by (simp add: round_even_def r_def)
    then show ?thesis using r 1 by (simp add: r_def)
  next
    case 2
    then have "round_even y = \<lfloor>y\<rfloor> + 1" by (simp add: round_even_def r_def)
    then show ?thesis using r 2 by (simp add: r_def)
  next
    case 3
    then have "round_even y = \<lfloor>y\<rfloor> \<or> round_even y = \<lfloor>y\<rfloor> + 1"
      by (simp add: round_even_def r_def)
    then show ?thesis using 3 by (auto simp add: r_def)
  qed
qed

lemma binade:
  assumes "x \<noteq> 0"
  shows "2 powr real_of_int \<lfloor>log 2 \<bar>x\<bar>\<rfloor> \<le> \<bar>x\<bar>"
    and "\<bar>x\<bar> < 2 powr (real_of_int \<lfloor>log 2 \<bar>x\<bar>\<rfloor> + 1)"
proof -
  from assms have p: "0 < \<bar>x\<bar>" by simp
  have "\<lfloor>log 2 \<bar>x\<bar>\<rfloor> = \<lfloor>log 2 \<bar>x\<bar>\<rfloor>" ..
  then have "2 powr real_of_int \<lfloor>log 2 \<bar>x\<bar>\<rfloor> \<le> \<bar>x\<bar> \<and> \<bar>x\<bar> < 2 powr (real_of_int \<lfloor>log 2 \<bar>x\<bar>\<rfloor> + 1)"
    using floor_log_eq_powr_iff [OF p, of 2 "\<lfloor>log 2 \<bar>x\<bar>\<rfloor>"] by simp
  then show "2 powr real_of_int \<lfloor>log 2 \<bar>x\<bar>\<rfloor> \<le> \<bar>x\<bar>"
    and "\<bar>x\<bar> < 2 powr (real_of_int \<lfloor>log 2 \<bar>x\<bar>\<rfloor> + 1)" by blast+
qed

text \<open>The relative error of a rounding is at most \<open>2\<^sup>-\<^sup>5\<^sup>3\<close>.\<close>

lemma double_round_accurate: "\<bar>double_round x - x\<bar> \<le> \<bar>x\<bar> / 2 ^ 53"
proof (cases "x = 0")
  case True
  then show ?thesis by (simp add: double_round_def)
next
  case False
  define L where "L = \<lfloor>log 2 \<bar>x\<bar>\<rfloor>"
  define u :: real where "u = 2 powr real_of_int (L - 52)"
  have u: "0 < u" by (simp add: u_def)
  have "u * 2 ^ 52 = 2 powr real_of_int L"
  proof -
    have "(2::real) ^ 52 = 2 powr 52" by simp
    then have "u * 2 ^ 52 = 2 powr (real_of_int (L - 52) + 52)"
      unfolding u_def by (simp only: powr_add)
    then show ?thesis by simp
  qed
  with binade(1) [OF False] have lo: "u * 2 ^ 52 \<le> \<bar>x\<bar>" by (simp add: L_def)
  have "double_round x - x = (real_of_int (round_even (x / u)) - x / u) * u"
    using False u by (simp add: double_round_def L_def u_def algebra_simps)
  then have "\<bar>double_round x - x\<bar> = \<bar>real_of_int (round_even (x / u)) - x / u\<bar> * u"
    using u by (simp add: abs_mult)
  also have "\<dots> \<le> 1 / 2 * u"
    using round_even_err [of "x / u"] u by (intro mult_right_mono) simp_all
  also have "\<dots> \<le> \<bar>x\<bar> / 2 ^ 53" using lo by simp
  finally show ?thesis .
qed

text \<open>Evaluation: with \<open>2\<^sup>5\<^sup>2 \<le> |x| 2\<^sup>p < 2\<^sup>5\<^sup>3\<close> the unit in the last place is \<open>2\<^sup>-\<^sup>p\<close>.\<close>

lemma double_round_scaled:
  assumes "2 ^ 52 \<le> \<bar>x\<bar> * 2 ^ p" and "\<bar>x\<bar> * 2 ^ p < 2 ^ 53"
  shows "double_round x = real_of_int (round_even (x * 2 ^ p)) / 2 ^ p"
proof -
  from assms(1) have nz: "x \<noteq> 0" by auto
  then have pos: "0 < \<bar>x\<bar>" by simp
  have pw: "2 powr (real_of_int (52 - int p)) = (2::real) ^ 52 / 2 ^ p"
  proof -
    have "2 powr (real_of_int (52 - int p)) = 2 powr (52 - real p)" by simp
    also have "\<dots> = 2 powr 52 / 2 powr (real p)" by (rule powr_diff)
    also have "\<dots> = (2::real) ^ 52 / 2 ^ p" by (simp add: powr_realpow)
    finally show ?thesis .
  qed
  have "2 powr (real_of_int (52 - int p)) \<le> \<bar>x\<bar>"
    unfolding pw using assms(1) by (simp add: field_simps)
  moreover have "\<bar>x\<bar> < 2 powr (real_of_int (52 - int p) + 1)"
  proof -
    have "2 powr (real_of_int (52 - int p) + 1) = 2 powr (real_of_int (52 - int p)) * 2"
      by (simp only: powr_add) simp
    also have "\<dots> = (2::real) ^ 53 / 2 ^ p" unfolding pw by simp
    finally have "2 powr (real_of_int (52 - int p) + 1) = (2::real) ^ 53 / 2 ^ p" .
    moreover from assms(2) have "\<bar>x\<bar> < (2::real) ^ 53 / 2 ^ p"
      by (simp add: pos_less_divide_eq)
    ultimately show ?thesis by (simp only:)
  qed
  ultimately have L: "\<lfloor>log 2 \<bar>x\<bar>\<rfloor> = 52 - int p"
    using floor_log_eq_powr_iff [OF pos, of 2 "52 - int p"] by simp
  have e: "2 powr real_of_int (\<lfloor>log 2 \<bar>x\<bar>\<rfloor> - 52) = 1 / 2 ^ p"
  proof -
    have "2 powr real_of_int (\<lfloor>log 2 \<bar>x\<bar>\<rfloor> - 52) = 2 powr (- real p)" by (simp add: L)
    also have "\<dots> = 1 / 2 powr (real p)" by (simp add: powr_minus divide_inverse)
    also have "\<dots> = 1 / (2::real) ^ p" by (simp add: powr_realpow)
    finally show ?thesis .
  qed
  show ?thesis using nz unfolding double_round_def e by simp
qed

text \<open>Integers below \<open>2\<^sup>5\<^sup>3\<close> in magnitude are doubles.\<close>

lemma double_round_int:
  assumes "\<bar>m\<bar> < 2 ^ 53"
  shows "double_round (real_of_int m) = real_of_int m"
proof (cases "m = 0")
  case True
  then show ?thesis by (simp add: double_round_def)
next
  case False
  define L where "L = \<lfloor>log 2 \<bar>real_of_int m\<bar>\<rfloor>"
  from False have one: "1 \<le> \<bar>real_of_int m\<bar>" by (simp flip: of_int_abs)
  then have "0 \<le> log 2 \<bar>real_of_int m\<bar>" by simp
  then have L0: "0 \<le> L" by (simp add: L_def)
  from assms have "\<bar>real_of_int m\<bar> < 2 ^ 53"
    by (metis of_int_abs of_int_less_numeral_power_cancel_iff)
  then have "\<bar>real_of_int m\<bar> < 2 powr 53" by simp
  with one have "log 2 \<bar>real_of_int m\<bar> < 53" by (simp add: log_less_iff)
  then have L1: "L \<le> 52" unfolding L_def by linarith
  define p where "p = nat (52 - L)"
  have pL: "L = 52 - int p" using L1 by (simp add: p_def)
  have x0: "real_of_int m \<noteq> 0" using False by simp
  have lo: "2 powr real_of_int L \<le> \<bar>real_of_int m\<bar>"
    and hi: "\<bar>real_of_int m\<bar> < 2 powr (real_of_int L + 1)"
    using binade [OF x0] by (simp_all add: L_def)
  have pw: "2 powr real_of_int L = (2::real) ^ 52 / 2 ^ p"
  proof -
    have "2 powr real_of_int L = 2 powr (52 - real p)" by (simp add: pL)
    also have "\<dots> = 2 powr 52 / 2 powr (real p)" by (rule powr_diff)
    also have "\<dots> = (2::real) ^ 52 / 2 ^ p" by (simp add: powr_realpow)
    finally show ?thesis .
  qed
  have a1: "2 ^ 52 \<le> \<bar>real_of_int m\<bar> * 2 ^ p"
    using lo unfolding pw by (simp add: field_simps)
  have "2 powr (real_of_int L + 1) = (2::real) ^ 53 / 2 ^ p"
    unfolding powr_add pw by simp
  with hi have "\<bar>real_of_int m\<bar> < (2::real) ^ 53 / 2 ^ p" by simp
  then have a2: "\<bar>real_of_int m\<bar> * 2 ^ p < 2 ^ 53" by (simp add: pos_less_divide_eq)
  have "real_of_int m * 2 ^ p = real_of_int (m * 2 ^ p)" by simp
  then show ?thesis
    unfolding double_round_scaled [OF a1 a2] by (simp only: round_even_int) simp
qed

lemma double_round_numeral:
  "numeral n < (2::int) ^ 53 \<Longrightarrow> double_round (numeral n) = numeral n"
  using double_round_int [of "numeral n"] by simp

lemma double_round_zero: "double_round 0 = 0"
  by (simp add: double_round_def)

lemma fl_ieee: "fl ieee = double_round"
  by (simp add: ieee_def)

lemma fl_exact: "fl exact x = x"
  by (simp add: exact_def)

lemma tenth_exact: "tenth exact = 1 / 10"
  by (simp add: tenth_def exact_def)

lemma tenth_ieee: "tenth ieee = 3602879701896397 / 2 ^ 55"
  unfolding tenth_def fl_ieee
  by (subst double_round_scaled [where p = 56]) (simp_all add: round_even_def)

text \<open>The products and the sum of doubles that the examples below compute.\<close>

lemma ieee_50_tenths: "fl ieee (50 * tenth ieee) = 5"
  unfolding tenth_ieee fl_ieee
  by (subst double_round_scaled [where p = 50]) (simp_all add: round_even_def)

lemma ieee_5000_tenths: "fl ieee (5000 * tenth ieee) = 500"
  unfolding tenth_ieee fl_ieee
  by (subst double_round_scaled [where p = 44]) (simp_all add: round_even_def)

lemma ieee_21_tenths: "fl ieee (21 * tenth ieee) = 4728779608739021 / 2 ^ 51"
  unfolding tenth_ieee fl_ieee
  by (subst double_round_scaled [where p = 51]) (simp_all add: round_even_def)




lemma ieee_zero: "fl ieee 0 = 0"
  by (simp add: fl_ieee double_round_zero)

lemma ieee_numeral: "numeral n < (2::int) ^ 53 \<Longrightarrow> fl ieee (numeral n) = numeral n"
  by (simp add: fl_ieee double_round_numeral)

lemma ieee_int: "\<bar>m\<bar> < 2 ^ 53 \<Longrightarrow> fl ieee (real_of_int m) = real_of_int m"
  by (simp add: fl_ieee double_round_int)

lemma ieee_accurate: "\<bar>fl ieee x - x\<bar> \<le> \<bar>x\<bar> / 2 ^ 53"
  unfolding fl_ieee by (rule double_round_accurate)

lemmas ieee_eval = ieee_zero ieee_numeral ieee_50_tenths ieee_5000_tenths

section \<open>Window dimensions\<close>

lemma resolutions_lookup:
  "map_of resolutions r =
     (if r = ''360P'' then Some (800, 600)
      else if r = ''HD'' then Some (1280, 720)
      else if r = ''FULLHD'' then Some (1920, 1080)
      else if r = ''2K'' then Some (2560, 1440)
      else if r = ''4K'' then Some (3840, 2160)
      else None)"
  by (simp add: resolutions_def)

text \<open>
  Claim C7. At construction the window takes the (width, height) pair the table gives the
  named resolution, each component cut down to the dimension of the first monitor minus
  50; the table holds exactly the five pairs 360P (800, 600), HD (1280, 720),
  FULLHD (1920, 1080), 2K (2560, 1440), 4K (3840, 2160); and ``360P'' on a screen of at
  least 900 by 700 gives a window of 800 by 600.
\<close>

theorem init_dimensions:
  "(map_of resolutions resolution = Some (w, h) \<longrightarrow>
      (\<exists>a. init ((screen_width, screen_height) # ms) resolution = Inr a \<and>
           width a = min w (screen_width - 50) \<and>
           height a = min h (screen_height - 50) \<and>
           geometry a = (width a, height a))) \<and>
   resolutions =
     [(''360P'', (800, 600)), (''HD'', (1280, 720)), (''FULLHD'', (1920, 1080)),
      (''2K'', (2560, 1440)), (''4K'', (3840, 2160))] \<and>
   (900 \<le> screen_width \<and> 700 \<le> screen_height \<longrightarrow>
      (\<exists>a. init ((screen_width, screen_height) # ms) ''360P'' = Inr a \<and>
           width a = 800 \<and> height a = 600))"
  by (auto simp add: init_def resolutions_lookup resolutions_def split: if_splits)

theorem init_dimensions_witness:
  "map_of resolutions ''FULLHD'' = Some (1920, 1080) \<and>
   (\<exists>a. init [(1920, 1080)] ''FULLHD'' = Inr a \<and> width a = 1870 \<and> height a = 1030) \<and>
   (900::int) \<le> 1920 \<and> (700::int) \<le> 1080 \<and>
   (\<exists>a. init [(1920, 1080)] ''360P'' = Inr a \<and> width a = 800 \<and> height a = 600)"
  using init_dimensions [of "''FULLHD''" 1920 1080 1920 1080 "[]"]
  by (auto simp add: resolutions_lookup)

text \<open>
  Claim C10. A resolution string that is not a key of the table makes the constructor
  fall back to the HD pair (1280, 720), cut down to the screen like any other, with no
  error: the outcome is that of constructing with ``HD'', the stored selection apart.
  \<^verbatim>\<open>change_resolution\<close> indexes the table directly and fails with a KeyError on
  such a string.
\<close>

theorem unknown_resolution:
  "map_of resolutions resolution = None \<Longrightarrow>
     (\<exists>a0. init ((screen_width, screen_height) # ms) resolution = Inr a0 \<and>
           width a0 = min 1280 (screen_width - 50) \<and>
           height a0 = min 720 (screen_height - 50) \<and>
           init ((screen_width, screen_height) # ms) ''HD'' = Inr (a0\<lparr>resolution_var := ''HD''\<rparr>)) \<and>
     change_resolution monitors a resolution = Inl KeyError"
  by (simp add: init_def change_resolution_def resolutions_lookup)

theorem unknown_resolution_witness:
  "map_of resolutions ''8K'' = None \<and>
   (\<exists>a0. init [(1920, 1080)] ''8K'' = Inr a0 \<and> width a0 = 1280 \<and> height a0 = 720) \<and>
   change_resolution [(1920, 1080)]
     \<lparr>width = 1280, height = 720, canvas = \<lparr>items = Map.empty, next_id = 1\<rparr>,
      geometry = (1280, 720), resolution_var = ''8K''\<rparr> ''8K'' = Inl KeyError"
  using unknown_resolution [of "''8K''" 1920 1080 "[]" "[(1920, 1080)]"
     "\<lparr>width = 1280, height = 720, canvas = \<lparr>items = Map.empty, next_id = 1\<rparr>,
      geometry = (1280, 720), resolution_var = ''8K''\<rparr>"]
  by (auto simp add: resolutions_lookup)

section \<open>The canvas and the particle loop\<close>

lemma items_move:
  "items (canvas_move ar c i dx dy) j =
     (if j = i then map_option (\<lambda>it. it\<lparr>bbox := shift ar dx dy (bbox it)\<rparr>) (items c i)
      else items c j)"
  by (simp add: canvas_move_def split: option.splits)

lemma items_delete: "items (canvas_delete c i) j = (if j = i then None else items c j)"
  by (simp add: canvas_delete_def)

lemma next_id_move: "next_id (canvas_move ar c i dx dy) = next_id c"
  by (simp add: canvas_move_def split: option.splits)

lemma next_id_delete: "next_id (canvas_delete c i) = next_id c"
  by (simp add: canvas_delete_def)

lemma coords_empty: "canvas_coords c i = [] \<longleftrightarrow> items c i = None"
  by (simp add: canvas_coords_def split: option.splits prod.splits)

lemma coords_bbox:
  "canvas_coords c i = [x1, y1, x2, y2] \<longleftrightarrow> (\<exists>it. items c i = Some it \<and> bbox it = (x1, y1, x2, y2))"
  by (auto simp add: canvas_coords_def split: option.splits prod.splits)

lemma coords_after_move:
  "canvas_coords c i \<noteq> [] \<Longrightarrow>
   \<exists>x1 y1 x2 y2. canvas_coords c i = [x1, y1, x2, y2] \<and>
      canvas_coords (canvas_move ar c i dx dy) i = [fl ar (x1 + dx), fl ar (y1 + dy), fl ar (x2 + dx), fl ar (y2 + dy)]"
  by (auto simp add: canvas_coords_def items_move shift_def split: option.splits prod.splits)

lemma move_absent: "items c i = None \<Longrightarrow> canvas_move ar c i dx dy = c"
  by (simp add: canvas_move_def)

lemma advance_body_survives:
  "advance_body ar w h (i, dx, dy) (c, r) =
     (if survives ar w h c (i, dx, dy)
      then (canvas_move ar c i (fl ar (dx * tenth ar)) (fl ar (dy * tenth ar)), r @ [(i, dx, dy)])
      else (canvas_delete (canvas_move ar c i (fl ar (dx * tenth ar)) (fl ar (dy * tenth ar))) i, r))"
  by (auto simp add: advance_body_def survives_def Let_def coords_empty move_absent)

lemma survives_cong:
  "items c1 (fst p) = items c (fst p) \<Longrightarrow> survives ar w h c1 p = survives ar w h c p"
  by (cases p) (simp add: survives_def canvas_coords_def items_move)

lemma advance_fold_other:
  "j \<notin> fst ` set ps \<Longrightarrow> items (fst (fold (advance_body ar w h) ps (c, r))) j = items c j"
proof (induction ps arbitrary: c r)
  case Nil
  show ?case by simp
next
  case (Cons p ps)
  obtain i dx dy where p: "p = (i, dx, dy)" by (cases p)
  from Cons.prems have "j \<noteq> i" and "j \<notin> fst ` set ps" by (auto simp add: p)
  then show ?case
    by (simp add: p advance_body_survives Cons.IH items_move items_delete)
qed

lemma advance_fold_next_id: "next_id (fst (fold (advance_body ar w h) ps (c, r))) = next_id c"
proof (induction ps arbitrary: c r)
  case Nil
  show ?case by simp
next
  case (Cons p ps)
  obtain i dx dy where p: "p = (i, dx, dy)" by (cases p)
  show ?case
    by (simp add: p advance_body_survives Cons.IH next_id_move next_id_delete)
qed

lemma filter_survives_cong:
  assumes "\<And>p. p \<in> set ps \<Longrightarrow> items c1 (fst p) = items c (fst p)"
  shows "filter (survives ar w h c1) ps = filter (survives ar w h c) ps"
proof (rule filter_cong [OF refl])
  fix p
  assume "p \<in> set ps"
  then show "survives ar w h c1 p = survives ar w h c p"
    by (intro survives_cong assms)
qed

lemma advance_fold_snd:
  "distinct (map fst ps) \<Longrightarrow>
   snd (fold (advance_body ar w h) ps (c, r)) = r @ filter (survives ar w h c) ps"
proof (induction ps arbitrary: c r)
  case Nil
  show ?case by simp
next
  case (Cons p ps)
  obtain i dx dy where p: "p = (i, dx, dy)" by (cases p)
  from Cons.prems have fresh: "i \<notin> fst ` set ps" and d: "distinct (map fst ps)"
    by (auto simp add: p)
  have other: "\<And>c1 q. q \<in> set ps \<Longrightarrow> fst q \<noteq> i" using fresh by auto
  have m: "filter (survives ar w h (canvas_move ar c i mx my)) ps = filter (survives ar w h c) ps"
    for mx my
    by (rule filter_survives_cong) (simp add: items_move other)
  have dm: "filter (survives ar w h (canvas_delete (canvas_move ar c i mx my) i)) ps =
      filter (survives ar w h c) ps" for mx my
    by (rule filter_survives_cong) (simp add: items_move items_delete other)
  show ?case
    by (simp add: p advance_body_survives Cons.IH [OF d] m dm)
qed

lemma advance_fold_item:
  "distinct (map fst ps) \<Longrightarrow> (i, dx, dy) \<in> set ps \<Longrightarrow>
   items (fst (fold (advance_body ar w h) ps (c, r))) i =
     (if survives ar w h c (i, dx, dy)
      then map_option (\<lambda>it. it\<lparr>bbox := shift ar (fl ar (dx * tenth ar)) (fl ar (dy * tenth ar)) (bbox it)\<rparr>) (items c i)
      else None)"
proof (induction ps arbitrary: c r)
  case Nil
  then show ?case by simp
next
  case (Cons p ps)
  obtain j ex ey where p: "p = (j, ex, ey)" by (cases p)
  from Cons.prems have fresh: "j \<notin> fst ` set ps" and d: "distinct (map fst ps)"
    by (auto simp add: p)
  show ?case
  proof (cases "(i, dx, dy) = p")
    case True
    then have e: "j = i" "ex = dx" "ey = dy" by (simp_all add: p)
    from fresh have "i \<notin> fst ` set ps" by (simp add: e)
    then show ?thesis
      by (simp add: p e advance_body_survives advance_fold_other items_move items_delete)
  next
    case False
    with Cons.prems have mem: "(i, dx, dy) \<in> set ps" by simp
    with fresh have ne: "i \<noteq> j" by force
    have s1: "survives ar w h (canvas_move ar c j mx my) (i, dx, dy) = survives ar w h c (i, dx, dy)"
      for mx my
      by (rule survives_cong) (simp add: items_move ne)
    have s2: "survives ar w h (canvas_delete (canvas_move ar c j mx my) j) (i, dx, dy) =
        survives ar w h c (i, dx, dy)" for mx my
      by (rule survives_cong) (simp add: items_move items_delete ne)
    show ?thesis
      by (simp add: p advance_body_survives Cons.IH [OF d mem] s1 s2 items_move items_delete ne)
  qed
qed

lemma advance_fold_subseq:
  "\<exists>ys. snd (fold (advance_body ar w h) ps (c, r)) = r @ ys \<and> subseq ys ps"
proof (induction ps arbitrary: c r)
  case Nil
  show ?case by simp
next
  case (Cons p ps)
  obtain i dx dy where p: "p = (i, dx, dy)" by (cases p)
  show ?case
  proof (cases "survives ar w h c p")
    case True
    from Cons.IH [of "canvas_move ar c i (fl ar (dx * tenth ar)) (fl ar (dy * tenth ar))" "r @ [p]"]
    obtain ys where "snd (fold (advance_body ar w h) ps (canvas_move ar c i (fl ar (dx * tenth ar)) (fl ar (dy * tenth ar)), r @ [p])) = (r @ [p]) @ ys"
      and "subseq ys ps" by blast
    then have "snd (fold (advance_body ar w h) (p # ps) (c, r)) = r @ (p # ys) \<and> subseq (p # ys) (p # ps)"
      using True by (simp add: p advance_body_survives )
    then show ?thesis by blast
  next
    case False
    from Cons.IH [of "canvas_delete (canvas_move ar c i (fl ar (dx * tenth ar)) (fl ar (dy * tenth ar))) i" r]
    obtain ys where "snd (fold (advance_body ar w h) ps (canvas_delete (canvas_move ar c i (fl ar (dx * tenth ar)) (fl ar (dy * tenth ar))) i, r)) = r @ ys"
      and "subseq ys ps" by blast
    then have "snd (fold (advance_body ar w h) (p # ps) (c, r)) = r @ ys \<and> subseq ys (p # ps)"
      using False by (simp add: p advance_body_survives list_emb_Cons)
    then show ?thesis by blast
  qed
qed

lemma advance_fold_fill:
  "items (fst (fold (advance_body ar w h) ps (c, r))) j = Some it' \<Longrightarrow>
   \<exists>it. items c j = Some it \<and> fill it' = fill it \<and> outline it' = outline it"
proof (induction ps arbitrary: c r)
  case Nil
  then show ?case by simp
next
  case (Cons p ps)
  obtain i dx dy where p: "p = (i, dx, dy)" by (cases p)
  let ?m = "canvas_move ar c i (fl ar (dx * tenth ar)) (fl ar (dy * tenth ar))"
  have step: "\<And>c1 it1. items c1 j = Some it1 \<Longrightarrow> c1 = ?m \<or> c1 = canvas_delete ?m i \<Longrightarrow>
      \<exists>it. items c j = Some it \<and> fill it1 = fill it \<and> outline it1 = outline it"
    by (auto simp add: items_move items_delete split: if_splits)
  show ?case
  proof (cases "survives ar w h c p")
    case True
    with Cons.prems have "items (fst (fold (advance_body ar w h) ps (?m, r @ [p]))) j = Some it'"
      by (simp add: p advance_body_survives)
    from Cons.IH [OF this] obtain it1 where "items ?m j = Some it1"
      and "fill it' = fill it1" and "outline it' = outline it1" by blast
    with step [of ?m it1] show ?thesis by auto
  next
    case False
    with Cons.prems have "items (fst (fold (advance_body ar w h) ps (canvas_delete ?m i, r))) j = Some it'"
      by (simp add: p advance_body_survives)
    from Cons.IH [OF this] obtain it1 where "items (canvas_delete ?m i) j = Some it1"
      and "fill it' = fill it1" and "outline it' = outline it1" by blast
    with step [of "canvas_delete ?m i" it1] show ?thesis by auto
  qed
qed

lemma delete_absent: "items c i = None \<Longrightarrow> canvas_delete c i = c"
  by (cases c) (simp add: canvas_delete_def fun_upd_idem)

lemma advance_particles_snd:
  "distinct (map fst ps) \<Longrightarrow>
   snd (advance_particles ar a ps) = filter (survives ar (width a) (height a) (canvas a)) ps"
  by (simp add: advance_particles_def advance_fold_snd)

text \<open>
  Claim C3. In one advance step over particles with pairwise different handles, a particle
  is dropped from the list exactly when its shape was absent before the move or its
  position after the move lies outside [0, width] x [0, height] on either axis; a dropped
  particle has no shape afterwards; and a shape that is already absent is handled without
  any error: the step leaves canvas and list as they are.
\<close>

theorem particle_removed_iff:
  assumes "distinct (map fst particles)" and "(i, dx, dy) \<in> set particles"
  shows "((i, dx, dy) \<notin> set (snd (advance_particles ar a particles))) =
           (canvas_coords (canvas a) i = [] \<or>
            \<not> in_bounds (width a) (height a)
                (canvas_coords (canvas_move ar (canvas a) i (fl ar (dx * tenth ar)) (fl ar (dy * tenth ar))) i)) \<and>
         ((i, dx, dy) \<notin> set (snd (advance_particles ar a particles)) \<longrightarrow>
            canvas_coords (fst (advance_particles ar a particles)) i = []) \<and>
         (canvas_coords (canvas a) i = [] \<longrightarrow>
            advance_body ar (width a) (height a) (i, dx, dy) (canvas a, r) = (canvas a, r))"
proof -
  have rem: "((i, dx, dy) \<in> set (snd (advance_particles ar a particles))) =
      survives ar (width a) (height a) (canvas a) (i, dx, dy)"
    using assms by (simp add: advance_particles_snd)
  have gone: "\<not> survives ar (width a) (height a) (canvas a) (i, dx, dy) \<Longrightarrow>
      items (fst (advance_particles ar a particles)) i = None"
    using assms by (simp add: advance_particles_def advance_fold_item)
  have absent: "canvas_coords (canvas a) i = [] \<Longrightarrow>
      advance_body ar (width a) (height a) (i, dx, dy) (canvas a, r) = (canvas a, r)"
    by (simp add: advance_body_def coords_empty delete_absent)
  show ?thesis
    using rem gone absent by (auto simp add: survives_def coords_empty)
qed


lemmas example_defs = example_app_def example_canvas_def example_rnd_def

theorem particle_removed_iff_witness:
  "distinct (map fst [(2, 5000, 0), (3::nat, 10::real, 10::real)]) \<and>
   (2, 5000, 0) \<in> set [(2, 5000, 0), (3::nat, 10::real, 10::real)] \<and>
   (2, 5000, 0) \<notin> set (snd (advance_particles ieee example_app [(2, 5000, 0), (3, 10, 10)])) \<and>
   canvas_coords (fst (advance_particles ieee example_app [(2, 5000, 0), (3, 10, 10)])) 2 = []"
  using particle_removed_iff [of "[(2, 5000, 0), (3, 10, 10)]" 2 5000 0 ieee example_app]
  by (simp add: example_defs canvas_coords_def canvas_move_def shift_def in_bounds_def
      ieee_eval)

subsection \<open>Rescheduling\<close>

lemma animate_explosion_fst:
  "fst (animate_explosion ar a ps) = a\<lparr>canvas := fst (advance_particles ar a ps)\<rparr>"
  by (simp add: animate_explosion_def split: prod.splits)

lemma animate_explosion_snd:
  "snd (animate_explosion ar a ps) =
     (if snd (advance_particles ar a ps) = [] then []
      else [(50, Animate_explosion (snd (advance_particles ar a ps)))])"
  by (simp add: animate_explosion_def split: prod.splits)

lemma run_frames_nothing: "run_frames n ar rnd a [] = (a, [])"
  by (cases n) simp_all

text \<open>
  Claim C5. The advance step of an explosion registers a next advance (after 50 ms, on the
  remaining particles) if and only if at least one particle remains after the step; when
  none remains nothing is registered, so no callback of this explosion ever runs again.
\<close>

theorem explosion_reschedules:
  "snd (animate_explosion ar a particles) =
     (if snd (advance_particles ar a particles) = [] then []
      else [(50, Animate_explosion (snd (advance_particles ar a particles)))]) \<and>
   (snd (animate_explosion ar a particles) \<noteq> []) = (snd (advance_particles ar a particles) \<noteq> []) \<and>
   (snd (advance_particles ar a particles) = [] \<longrightarrow>
      (\<forall>n. run_frames n ar rnd (fst (animate_explosion ar a particles))
             (snd (animate_explosion ar a particles)) =
           (fst (animate_explosion ar a particles), [])))"
  by (simp add: animate_explosion_snd run_frames_nothing)

lemma example_fast_particle: "snd (advance_particles ieee example_app [(2, 5000, 0)]) = []"
  by (simp add: advance_particles_def advance_body_def example_defs canvas_coords_def
      canvas_move_def shift_def in_bounds_def ieee_eval)

lemma example_slow_particle: "snd (advance_particles ieee example_app [(2, 50, 0)]) = [(2, 50, 0)]"
  by (simp add: advance_particles_def advance_body_def example_defs canvas_coords_def
      canvas_move_def shift_def in_bounds_def ieee_eval)

theorem explosion_reschedules_witness:
  "snd (advance_particles ieee example_app [(2, 5000, 0)]) = [] \<and>
   snd (animate_explosion ieee example_app [(2, 5000, 0)]) = [] \<and>
   snd (run_frames 7 ieee example_rnd (fst (animate_explosion ieee example_app [(2, 5000, 0)]))
     (snd (animate_explosion ieee example_app [(2, 5000, 0)]))) = [] \<and>
   snd (animate_explosion ieee example_app [(2, 50, 0)]) = [(50, Animate_explosion [(2, 50, 0)])]"
  using explosion_reschedules [of ieee example_app "[(2, 5000, 0)]" example_rnd]
    explosion_reschedules [of ieee example_app "[(2, 50, 0)]" example_rnd]
  by (auto simp add: example_fast_particle example_slow_particle)


subsection \<open>The frames of one explosion\<close>

lemma advance_particles_subseq: "subseq (snd (advance_particles ar a ps)) ps"
  using advance_fold_subseq [of ar "width a" "height a" ps "canvas a" "[]"]
  by (auto simp add: advance_particles_def)

lemma advance_particles_fill:
  "items (fst (advance_particles ar a ps)) j = Some it' \<Longrightarrow>
   \<exists>it. items (canvas a) j = Some it \<and> fill it' = fill it \<and> outline it' = outline it"
  unfolding advance_particles_def by (rule advance_fold_fill)

lemma explosion_step_eq:
  "explosion_step ar (a, ps) =
     (a\<lparr>canvas := fst (advance_particles ar a ps)\<rparr>, snd (advance_particles ar a ps))"
  by (simp add: explosion_step_def split: prod.splits)

lemma explosion_step_empty: "(explosion_step ar ^^ n) (a, []) = (a, [])"
  by (induction n) (simp_all add: explosion_step_eq advance_particles_def)

lemma run_frames_explosion:
  "run_frames (Suc n) ar rnd a [(d, Animate_explosion ps)] =
     (fst ((explosion_step ar ^^ Suc n) (a, ps)),
      if snd ((explosion_step ar ^^ Suc n) (a, ps)) = [] then []
      else [(50, Animate_explosion (snd ((explosion_step ar ^^ Suc n) (a, ps))))])"
proof (induction n arbitrary: a ps d)
  case 0
  show ?case
    by (simp add: explosion_step_eq animate_explosion_def split: prod.splits)
next
  case (Suc n)
  let ?a1 = "a\<lparr>canvas := fst (advance_particles ar a ps)\<rparr>"
  let ?rem = "snd (advance_particles ar a ps)"
  have unroll: "(explosion_step ar ^^ Suc (Suc n)) (a, ps) = (explosion_step ar ^^ Suc n) (?a1, ?rem)"
    by (simp only: funpow_Suc_right o_apply explosion_step_eq)
  have first: "run_frames (Suc (Suc n)) ar rnd a [(d, Animate_explosion ps)] =
      run_frames (Suc n) ar rnd ?a1 (if ?rem = [] then [] else [(50, Animate_explosion ?rem)])"
    by (simp add: animate_explosion_def split: prod.splits)
  show ?case
  proof (cases "?rem = []")
    case True
    then show ?thesis
      unfolding unroll first by (simp add: explosion_step_empty del: funpow.simps)
  next
    case False
    then have "run_frames (Suc (Suc n)) ar rnd a [(d, Animate_explosion ps)] =
        run_frames (Suc n) ar rnd ?a1 [(50, Animate_explosion ?rem)]"
      by (simp only: first if_False)
    then show ?thesis
      by (simp only: unroll Suc.IH)
  qed
qed

lemma shift_funpow:
  "(shift ar sx sy ^^ n) (x1, y1, x2, y2) =
     (((\<lambda>u. fl ar (u + sx)) ^^ n) x1, ((\<lambda>u. fl ar (u + sy)) ^^ n) y1,
      ((\<lambda>u. fl ar (u + sx)) ^^ n) x2, ((\<lambda>u. fl ar (u + sy)) ^^ n) y2)"
  by (induction n) (simp_all add: shift_def)


lemma coords_cong: "items c1 i = items c2 i \<Longrightarrow> canvas_coords c1 i = canvas_coords c2 i"
  by (simp add: canvas_coords_def)

lemma distinct_subseq: "subseq xs ys \<Longrightarrow> distinct ys \<Longrightarrow> distinct xs"
  by (induction rule: list_emb.induct) (auto dest: list_emb_set)

lemma subseq_member: "subseq xs ys \<Longrightarrow> x \<in> set xs \<Longrightarrow> x \<in> set ys"
  by (auto dest: list_emb_set)

lemma distinct_handles_subseq:
  "subseq xs ys \<Longrightarrow> distinct (map fst ys) \<Longrightarrow> distinct (map fst xs)"
  using distinct_subseq [OF subseq_map] by blast

lemma frames_dims:
  "width (fst ((explosion_step ar ^^ n) (a, ps))) = width a \<and>
   height (fst ((explosion_step ar ^^ n) (a, ps))) = height a"
proof (induction n)
  case 0
  show ?case by simp
next
  case (Suc n)
  obtain a' ps' where s: "(explosion_step ar ^^ n) (a, ps) = (a', ps')"
    by (cases "(explosion_step ar ^^ n) (a, ps)")
  with Suc.IH show ?case by (simp add: explosion_step_eq)
qed

lemma frames_subseq: "subseq (snd ((explosion_step ar ^^ n) (a, ps))) ps"
proof (induction n)
  case 0
  show ?case by simp
next
  case (Suc n)
  obtain a' ps' where s: "(explosion_step ar ^^ n) (a, ps) = (a', ps')"
    by (cases "(explosion_step ar ^^ n) (a, ps)")
  with Suc.IH have "subseq ps' ps" by simp
  moreover have "subseq (snd (advance_particles ar a' ps')) ps'"
    by (rule advance_particles_subseq)
  ultimately have "subseq (snd (advance_particles ar a' ps')) ps"
    by (rule subseq_order.trans [rotated])
  then show ?case by (simp add: s explosion_step_eq)
qed

lemma frames_fill:
  "items (canvas (fst ((explosion_step ar ^^ n) (a, ps)))) j = Some it' \<Longrightarrow>
   \<exists>it. items (canvas a) j = Some it \<and> fill it' = fill it \<and> outline it' = outline it"
proof (induction n arbitrary: it')
  case 0
  then show ?case by simp
next
  case (Suc n)
  obtain a' ps' where s: "(explosion_step ar ^^ n) (a, ps) = (a', ps')"
    by (cases "(explosion_step ar ^^ n) (a, ps)")
  from Suc.prems have "items (fst (advance_particles ar a' ps')) j = Some it'"
    by (simp add: s explosion_step_eq)
  from advance_particles_fill [OF this] obtain it1 where
    "items (canvas a') j = Some it1" and "fill it' = fill it1" and "outline it' = outline it1"
    by blast
  with Suc.IH [of it1] s show ?case by auto
qed

text \<open>
  A particle that is still listed after \<open>n\<close> frames has been moved \<open>n\<close> times, each time
  by the same rounded offset.
\<close>

lemma frames_item:
  assumes "distinct (map fst ps)"
  shows "(i, dx, dy) \<in> set (snd ((explosion_step ar ^^ n) (a, ps))) \<Longrightarrow>
    items (canvas (fst ((explosion_step ar ^^ n) (a, ps)))) i =
      map_option
        (\<lambda>it. it\<lparr>bbox :=
           (shift ar (fl ar (dx * tenth ar)) (fl ar (dy * tenth ar)) ^^ n) (bbox it)\<rparr>)
        (items (canvas a) i)"
proof (induction n)
  case 0
  show ?case by (cases "items (canvas a) i") simp_all
next
  case (Suc n)
  obtain a' ps' where s: "(explosion_step ar ^^ n) (a, ps) = (a', ps')"
    by (cases "(explosion_step ar ^^ n) (a, ps)")
  have "subseq ps' ps" using frames_subseq [of n ar a ps] by (simp add: s)
  then have d: "distinct (map fst ps')" using assms by (rule distinct_handles_subseq)
  from Suc.prems have m: "(i, dx, dy) \<in> set (snd (advance_particles ar a' ps'))"
    by (simp add: s explosion_step_eq)
  then have mem: "(i, dx, dy) \<in> set ps'"
    and sv: "survives ar (width a') (height a') (canvas a') (i, dx, dy)"
    using d by (simp_all add: advance_particles_snd)
  from Suc.IH mem s have prev: "items (canvas a') i =
      map_option
        (\<lambda>it. it\<lparr>bbox :=
           (shift ar (fl ar (dx * tenth ar)) (fl ar (dy * tenth ar)) ^^ n) (bbox it)\<rparr>)
        (items (canvas a) i)" by simp
  have "items (fst (advance_particles ar a' ps')) i =
      map_option
        (\<lambda>it. it\<lparr>bbox := shift ar (fl ar (dx * tenth ar)) (fl ar (dy * tenth ar)) (bbox it)\<rparr>)
        (items (canvas a') i)"
    using advance_fold_item [OF d mem, of ar "width a'" "height a'" "canvas a'" "[]"] sv
    by (simp add: advance_particles_def)
  then show ?case
    by (simp add: s explosion_step_eq prev option.map_comp o_def)
qed

lemma frames_coords:
  assumes "distinct (map fst ps)"
    and "(i, dx, dy) \<in> set (snd ((explosion_step ar ^^ n) (a, ps)))"
    and "canvas_coords (canvas a) i = [x1, y1, x2, y2]"
  shows "canvas_coords (canvas (fst ((explosion_step ar ^^ n) (a, ps)))) i =
      [((\<lambda>u. fl ar (u + fl ar (dx * tenth ar))) ^^ n) x1,
       ((\<lambda>u. fl ar (u + fl ar (dy * tenth ar))) ^^ n) y1,
       ((\<lambda>u. fl ar (u + fl ar (dx * tenth ar))) ^^ n) x2,
       ((\<lambda>u. fl ar (u + fl ar (dy * tenth ar))) ^^ n) y2]"
proof -
  from assms(3) obtain it where it: "items (canvas a) i = Some it" "bbox it = (x1, y1, x2, y2)"
    unfolding coords_bbox by blast
  show ?thesis
    unfolding canvas_coords_def frames_item [OF assms(1,2)]
    by (simp add: it shift_funpow)
qed

lemma frames_in_bounds:
  assumes "distinct (map fst ps)"
    and "(i, dx, dy) \<in> set (snd ((explosion_step ar ^^ Suc n) (a, ps)))"
  shows "canvas_coords (canvas (fst ((explosion_step ar ^^ Suc n) (a, ps)))) i \<noteq> [] \<and>
    in_bounds (width a) (height a)
      (canvas_coords (canvas (fst ((explosion_step ar ^^ Suc n) (a, ps)))) i)"
proof -
  obtain a' ps' where s: "(explosion_step ar ^^ n) (a, ps) = (a', ps')"
    by (cases "(explosion_step ar ^^ n) (a, ps)")
  have "subseq ps' ps" using frames_subseq [of n ar a ps] by (simp add: s)
  then have d: "distinct (map fst ps')" using assms(1) by (rule distinct_handles_subseq)
  have dims: "width a' = width a" "height a' = height a"
    using frames_dims [of n ar a ps] by (simp_all add: s)
  from assms(2) have m: "(i, dx, dy) \<in> set (snd (advance_particles ar a' ps'))"
    by (simp add: s explosion_step_eq)
  then have mem: "(i, dx, dy) \<in> set ps'"
    and sv: "survives ar (width a) (height a) (canvas a') (i, dx, dy)"
    using d by (simp_all add: advance_particles_snd dims)
  define sx sy where "sx = fl ar (dx * tenth ar)" and "sy = fl ar (dy * tenth ar)"
  have it: "items (fst (advance_particles ar a' ps')) i =
      items (canvas_move ar (canvas a') i sx sy) i"
    using advance_fold_item [OF d mem, of ar "width a" "height a" "canvas a'" "[]"] sv
    by (simp add: advance_particles_def dims items_move sx_def sy_def)
  have c: "canvas_coords (fst (advance_particles ar a' ps')) i =
      canvas_coords (canvas_move ar (canvas a') i sx sy) i"
    using it by (rule coords_cong)
  from sv have "canvas_coords (canvas a') i \<noteq> []"
    and ib: "in_bounds (width a) (height a) (canvas_coords (canvas_move ar (canvas a') i sx sy) i)"
    by (simp_all add: survives_def sx_def sy_def)
  then have "canvas_coords (canvas_move ar (canvas a') i sx sy) i \<noteq> []"
    by (simp add: coords_empty items_move)
  with ib show ?thesis by (simp add: s explosion_step_eq c)
qed

lemma run_frames_explosion_result:
  assumes "run_frames (Suc n) ar rnd a [(d, Animate_explosion ps)] =
    (a', [(d', Animate_explosion rem)])"
  shows "a' = fst ((explosion_step ar ^^ Suc n) (a, ps)) \<and>
    rem = snd ((explosion_step ar ^^ Suc n) (a, ps)) \<and> rem \<noteq> []"
  using assms unfolding run_frames_explosion by (auto split: if_splits)

text \<open>
  Claim C8. The list of live particles only shrinks: what an advance step keeps is a
  subsequence of what it was given, and so is the list held after any number of frames, so
  no particle rejoins and every kept entry is an entry of the original list with the
  velocity (dx, dy) it was created with. A step changes no colour: every shape on the
  canvas afterwards was there before, with the same fill and outline.
\<close>

theorem particles_only_leave:
  "subseq (snd (advance_particles ar a particles)) particles \<and>
   (\<forall>j it'. items (fst (advance_particles ar a particles)) j = Some it' \<longrightarrow>
      (\<exists>it. items (canvas a) j = Some it \<and> fill it' = fill it \<and> outline it' = outline it)) \<and>
   (\<forall>a' d' remaining.
      run_frames n ar rnd a [(d, Animate_explosion particles)] =
        (a', [(d', Animate_explosion remaining)]) \<longrightarrow>
      subseq remaining particles \<and>
      (\<forall>j it'. items (canvas a') j = Some it' \<longrightarrow>
         (\<exists>it. items (canvas a) j = Some it \<and> fill it' = fill it \<and> outline it' = outline it)))"
proof (intro conjI allI impI)
  show "subseq (snd (advance_particles ar a particles)) particles"
    by (rule advance_particles_subseq)
next
  fix j it'
  assume "items (fst (advance_particles ar a particles)) j = Some it'"
  then show "\<exists>it. items (canvas a) j = Some it \<and> fill it' = fill it \<and> outline it' = outline it"
    by (rule advance_particles_fill)
next
  fix a' d' remaining
  assume r: "run_frames n ar rnd a [(d, Animate_explosion particles)] =
    (a', [(d', Animate_explosion remaining)])"
  show "subseq remaining particles"
  proof (cases n)
    case 0
    with r show ?thesis by simp
  next
    case (Suc m)
    with r run_frames_explosion_result [of m ar rnd a d particles a' d' remaining]
    show ?thesis using frames_subseq [of "Suc m" ar a particles] by simp
  qed
next
  fix a' d' remaining j it'
  assume r: "run_frames n ar rnd a [(d, Animate_explosion particles)] =
    (a', [(d', Animate_explosion remaining)])"
    and it: "items (canvas a') j = Some it'"
  show "\<exists>it. items (canvas a) j = Some it \<and> fill it' = fill it \<and> outline it' = outline it"
  proof (cases n)
    case 0
    with r it show ?thesis by simp
  next
    case (Suc m)
    with r run_frames_explosion_result [of m ar rnd a d particles a' d' remaining]
    have "a' = fst ((explosion_step ar ^^ Suc m) (a, particles))" by simp
    with it show ?thesis using frames_fill [of "Suc m" ar a particles j it'] by simp
  qed
qed

lemma example_slow_item:
  "items (fst (advance_particles ieee example_app [(2, 50, 0)])) 2 =
     Some \<lparr>bbox = (405, 150, 410, 155), fill = ''red'', outline = ''red''\<rparr>"
  by (simp add: advance_particles_def advance_body_def example_defs canvas_coords_def
      canvas_move_def shift_def in_bounds_def ieee_eval)

theorem particles_only_leave_witness:
  "subseq (snd (advance_particles ieee example_app [(2, 50, 0)])) [(2, 50, 0)] \<and>
   items (fst (advance_particles ieee example_app [(2, 50, 0)])) 2 =
     Some \<lparr>bbox = (405, 150, 410, 155), fill = ''red'', outline = ''red''\<rparr> \<and>
   (\<exists>it. items (canvas example_app) 2 = Some it \<and> fill it = ''red'' \<and> outline it = ''red'')"
  using particles_only_leave [of ieee example_app "[(2, 50, 0)]" 0 example_rnd 0]
    example_slow_item
  by fastforce

section \<open>The path of a particle\<close>





subsection \<open>One particle drifting to the right\<close>

lemma explosion_step_Suc:
  "(explosion_step ar ^^ Suc k) (a, ps) =
     (fst ((explosion_step ar ^^ k) (a, ps))
        \<lparr>canvas := fst (advance_particles ar (fst ((explosion_step ar ^^ k) (a, ps)))
            (snd ((explosion_step ar ^^ k) (a, ps))))\<rparr>,
      snd (advance_particles ar (fst ((explosion_step ar ^^ k) (a, ps)))
            (snd ((explosion_step ar ^^ k) (a, ps)))))"
  by (cases "(explosion_step ar ^^ k) (a, ps)") (simp add: explosion_step_eq)

lemma survives_coords:
  "canvas_coords c i = [x1, y1, x2, y2] \<Longrightarrow>
   survives ar w h c (i, dx, dy) =
     (0 \<le> fl ar (x1 + fl ar (dx * tenth ar)) \<and>
      fl ar (x1 + fl ar (dx * tenth ar)) \<le> real_of_int w \<and>
      0 \<le> fl ar (y1 + fl ar (dy * tenth ar)) \<and>
      fl ar (y1 + fl ar (dy * tenth ar)) \<le> real_of_int h)"
  by (auto simp add: survives_def in_bounds_def canvas_coords_def items_move shift_def
      split: option.splits prod.splits)

text \<open>Sums of integers stay exact as long as they stay below \<open>2\<^sup>5\<^sup>3\<close>.\<close>

lemma fl_int_eq:
  assumes "\<forall>m::int. \<bar>m\<bar> < 2 ^ 53 \<longrightarrow> fl ar (real_of_int m) = real_of_int m"
    and "x = real_of_int m" and "\<bar>m\<bar> < 2 ^ 53"
  shows "fl ar x = x"
  using assms by blast

lemma int_funpow:
  assumes "\<forall>m::int. \<bar>m\<bar> < 2 ^ 53 \<longrightarrow> fl ar (real_of_int m) = real_of_int m"
  shows "\<bar>x0\<bar> + \<bar>s\<bar> * int k < 2 ^ 53 \<Longrightarrow>
    ((\<lambda>u. fl ar (u + real_of_int s)) ^^ k) (real_of_int x0) = real_of_int (x0 + s * int k)"
proof (induction k)
  case 0
  show ?case by simp
next
  case (Suc k)
  have "\<bar>s\<bar> * int k \<le> \<bar>s\<bar> * int (Suc k)" by (intro mult_left_mono) simp_all
  with Suc.prems have "\<bar>x0\<bar> + \<bar>s\<bar> * int k < 2 ^ 53" by linarith
  then have prev: "((\<lambda>u. fl ar (u + real_of_int s)) ^^ k) (real_of_int x0) =
      real_of_int (x0 + s * int k)" by (rule Suc.IH)
  have "\<bar>x0 + s * int (Suc k)\<bar> \<le> \<bar>x0\<bar> + \<bar>s * int (Suc k)\<bar>" by (rule abs_triangle_ineq)
  also have "\<dots> = \<bar>x0\<bar> + \<bar>s\<bar> * int (Suc k)" by (simp add: abs_mult)
  finally have b: "\<bar>x0 + s * int (Suc k)\<bar> < 2 ^ 53" using Suc.prems by linarith
  have e: "real_of_int (x0 + s * int k) + real_of_int s = real_of_int (x0 + s * int (Suc k))"
    by (simp add: algebra_simps)
  have "fl ar (real_of_int (x0 + s * int (Suc k))) = real_of_int (x0 + s * int (Suc k))"
    using assms b by blast
  then have "fl ar (real_of_int (x0 + s * int k) + real_of_int s) =
      real_of_int (x0 + s * int (Suc k))"
    by (simp only: e)
  then show ?case by (simp only: funpow.simps o_apply prev)
qed

lemma drift_position:
  assumes ints: "\<forall>m::int. \<bar>m\<bar> < 2 ^ 53 \<longrightarrow> fl ar (real_of_int m) = real_of_int m"
    and five: "fl ar (50 * tenth ar) = 5"
    and "canvas_coords (canvas a) p = [400, 150, 405, 155]"
    and "snd ((explosion_step ar ^^ k) (a, [(p, 50, 0)])) = [(p, 50, 0)]"
    and "k \<le> 81"
  shows "canvas_coords (canvas (fst ((explosion_step ar ^^ k) (a, [(p, 50, 0)])))) p =
    [400 + 5 * real k, 150, 405 + 5 * real k, 155]"
proof -
  have mem: "(p, 50, 0) \<in> set (snd ((explosion_step ar ^^ k) (a, [(p, 50, 0)])))"
    unfolding assms(4) by simp
  have d: "distinct (map fst [(p, 50::real, 0::real)])" by simp
  have zero: "fl ar (0 * tenth ar) = 0"
    using fl_int_eq [OF ints, of 0 0] by simp
  have x1: "((\<lambda>u. fl ar (u + 5)) ^^ k) 400 = 400 + 5 * real k"
    using int_funpow [OF ints, of 400 5 k] \<open>k \<le> 81\<close> by simp
  have x2: "((\<lambda>u. fl ar (u + 5)) ^^ k) 405 = 405 + 5 * real k"
    using int_funpow [OF ints, of 405 5 k] \<open>k \<le> 81\<close> by simp
  have y1: "((\<lambda>u. fl ar (u + 0)) ^^ k) 150 = 150"
    using int_funpow [OF ints, of 150 0 k] by simp
  have y2: "((\<lambda>u. fl ar (u + 0)) ^^ k) 155 = 155"
    using int_funpow [OF ints, of 155 0 k] by simp
  show ?thesis
    unfolding frames_coords [OF d mem assms(3)] five zero x1 x2 y1 y2 ..
qed

lemma drift_stays:
  assumes ints: "\<forall>m::int. \<bar>m\<bar> < 2 ^ 53 \<longrightarrow> fl ar (real_of_int m) = real_of_int m"
    and five: "fl ar (50 * tenth ar) = 5"
    and "width a = 800" and "150 \<le> height a"
    and "canvas_coords (canvas a) p = [400, 150, 405, 155]"
  shows "k \<le> 80 \<Longrightarrow> snd ((explosion_step ar ^^ k) (a, [(p, 50, 0)])) = [(p, 50, 0)]"
proof (induction k)
  case 0
  show ?case by simp
next
  case (Suc k)
  let ?S = "(explosion_step ar ^^ k) (a, [(p, 50, 0)])"
  from Suc have cur: "snd ?S = [(p, 50, 0)]" and k: "k < 80" by simp_all
  from k have k81: "k \<le> 81" by simp
  have pos: "canvas_coords (canvas (fst ?S)) p = [400 + 5 * real k, 150, 405 + 5 * real k, 155]"
    using ints five assms(5) cur k81 by (rule drift_position)
  have dims: "width (fst ?S) = 800" "height (fst ?S) = height a"
    using frames_dims [of k ar a "[(p, 50, 0)]"] assms(3) by simp_all
  have zero: "fl ar (0 * tenth ar) = 0"
    using fl_int_eq [OF ints, of 0 0] by simp
  have nx: "fl ar (400 + 5 * real k + 5) = 400 + 5 * real k + 5"
    using k by (intro fl_int_eq [OF ints, of _ "405 + 5 * int k"]) simp_all
  have ny: "fl ar (150 + 0) = 150"
    using fl_int_eq [OF ints, of 150 150] by simp
  have "survives ar (width (fst ?S)) (height (fst ?S)) (canvas (fst ?S)) (p, 50, 0)"
    unfolding survives_coords [OF pos] five zero nx ny dims
    using k assms(4) by simp
  then have "snd (advance_particles ar (fst ?S) [(p, 50, 0)]) = [(p, 50, 0)]"
    by (simp add: advance_particles_snd)
  then show ?case
    unfolding explosion_step_Suc cur by simp
qed

lemma drift_leaves:
  assumes ints: "\<forall>m::int. \<bar>m\<bar> < 2 ^ 53 \<longrightarrow> fl ar (real_of_int m) = real_of_int m"
    and five: "fl ar (50 * tenth ar) = 5"
    and "width a = 800" and "150 \<le> height a"
    and "canvas_coords (canvas a) p = [400, 150, 405, 155]"
  shows "snd ((explosion_step ar ^^ 81) (a, [(p, 50, 0)])) = [] \<and>
    canvas_coords (canvas (fst ((explosion_step ar ^^ 81) (a, [(p, 50, 0)])))) p = []"
proof -
  let ?S = "(explosion_step ar ^^ 80) (a, [(p, 50, 0)])"
  have cur: "snd ?S = [(p, 50, 0)]"
    using drift_stays [OF assms, of 80] by simp
  have "canvas_coords (canvas (fst ?S)) p =
      [400 + 5 * real (80::nat), 150, 405 + 5 * real (80::nat), 155]"
    using ints five assms(5) cur by (rule drift_position) simp
  then have pos: "canvas_coords (canvas (fst ?S)) p = [800, 150, 805, 155]" by simp
  have dims: "width (fst ?S) = 800" "height (fst ?S) = height a"
    using frames_dims [of 80 ar a "[(p, 50, 0)]"] assms(3) by simp_all
  have nx: "fl ar (800 + 5) = 805"
    using fl_int_eq [OF ints, of 805 805] by simp
  have ns: "\<not> survives ar (width (fst ?S)) (height (fst ?S)) (canvas (fst ?S)) (p, 50, 0)"
    unfolding survives_coords [OF pos] five nx dims by simp
  then have gone: "snd (advance_particles ar (fst ?S) [(p, 50, 0)]) = []"
    by (simp add: advance_particles_snd)
  have "items (fst (advance_particles ar (fst ?S) [(p, 50, 0)])) p = None"
    using advance_fold_item [of "[(p, 50, 0)]" p 50 0 ar "width (fst ?S)" "height (fst ?S)"
        "canvas (fst ?S)" "[]"] ns
    by (simp add: advance_particles_def)
  then have "canvas_coords (fst (advance_particles ar (fst ?S) [(p, 50, 0)])) p = []"
    by (simp add: coords_empty)
  moreover have "(81::nat) = Suc 80" by simp
  ultimately show ?thesis
    using gone by (simp only: explosion_step_Suc cur) simp
qed

lemma drift_frames:
  assumes ints: "\<forall>m::int. \<bar>m\<bar> < 2 ^ 53 \<longrightarrow> fl ar (real_of_int m) = real_of_int m"
    and five: "fl ar (50 * tenth ar) = 5"
    and "width a = 800" and "150 \<le> height a"
    and "canvas_coords (canvas a) p = [400, 150, 405, 155]"
  shows "k \<le> 80 \<Longrightarrow>
      snd (run_frames k ar rnd a [(50, Animate_explosion [(p, 50, 0)])]) =
        [(50, Animate_explosion [(p, 50, 0)])] \<and>
      canvas_coords (canvas (fst (run_frames k ar rnd a [(50, Animate_explosion [(p, 50, 0)])]))) p =
        [400 + 5 * real k, 150, 405 + 5 * real k, 155]"
    and "snd (run_frames 81 ar rnd a [(50, Animate_explosion [(p, 50, 0)])]) = [] \<and>
      canvas_coords (canvas (fst (run_frames 81 ar rnd a [(50, Animate_explosion [(p, 50, 0)])]))) p = []"
proof -
  show "snd (run_frames k ar rnd a [(50, Animate_explosion [(p, 50, 0)])]) =
        [(50, Animate_explosion [(p, 50, 0)])] \<and>
      canvas_coords (canvas (fst (run_frames k ar rnd a [(50, Animate_explosion [(p, 50, 0)])]))) p =
        [400 + 5 * real k, 150, 405 + 5 * real k, 155]" if "k \<le> 80"
  proof (cases k)
    case 0
    with assms(5) show ?thesis by simp
  next
    case (Suc m)
    have s: "snd ((explosion_step ar ^^ k) (a, [(p, 50, 0)])) = [(p, 50, 0)]"
      using drift_stays [OF assms that] .
    from that have "k \<le> 81" by simp
    from drift_position [OF ints five assms(5) s this] s show ?thesis
      unfolding Suc run_frames_explosion by simp
  qed
  have e: "(81::nat) = Suc 80" by simp
  from drift_leaves [OF assms] show "snd (run_frames 81 ar rnd a [(50, Animate_explosion [(p, 50, 0)])]) = [] \<and>
      canvas_coords (canvas (fst (run_frames 81 ar rnd a [(50, Animate_explosion [(p, 50, 0)])]))) p = []"
    unfolding e run_frames_explosion by simp
qed

lemma example_drift_start: "canvas_coords (canvas example_app) 2 = [400, 150, 405, 155]"
  by (simp add: example_defs canvas_coords_def)

lemma example_dims: "width example_app = 800" "(150::int) \<le> height example_app"
  by (simp_all add: example_defs)

lemma ieee_ints: "\<forall>m::int. \<bar>m\<bar> < 2 ^ 53 \<longrightarrow> fl ieee (real_of_int m) = real_of_int m"
  using ieee_int by blast

text \<open>
  Claim C6, as the program has it. A particle with dx = 50, dy = 0 that starts at
  (400, 150) on a canvas 800 wide (and at least 150 high) moves 5 units a frame; after
  frame \<open>k\<close>, for every \<open>k\<close> up to 80, it is still listed, at x = 400 + 5 k, so after 80
  frames it sits at x = 800, which the inclusive test \<open>0 <= x <= width\<close> accepts. Frame
  81 moves it to 805, removes it and registers nothing more. This needs of the arithmetic
  only that it is exact on integers below \<open>2\<^sup>5\<^sup>3\<close> and that \<^verbatim>\<open>50 * 0.1\<close> is 5, which
  holds for doubles.
\<close>

theorem drifting_particle_leaves_at_81:
  assumes "\<forall>m::int. \<bar>m\<bar> < 2 ^ 53 \<longrightarrow> fl ar (real_of_int m) = real_of_int m"
    and "fl ar (50 * tenth ar) = 5"
    and "width a = 800" and "150 \<le> height a"
    and "canvas_coords (canvas a) p = [400, 150, 405, 155]"
  shows "(\<forall>k\<le>80.
      snd (run_frames k ar rnd a [(50, Animate_explosion [(p, 50, 0)])]) =
        [(50, Animate_explosion [(p, 50, 0)])] \<and>
      canvas_coords (canvas (fst (run_frames k ar rnd a [(50, Animate_explosion [(p, 50, 0)])]))) p =
        [400 + 5 * real k, 150, 405 + 5 * real k, 155]) \<and>
    snd (run_frames 81 ar rnd a [(50, Animate_explosion [(p, 50, 0)])]) = [] \<and>
    canvas_coords (canvas (fst (run_frames 81 ar rnd a [(50, Animate_explosion [(p, 50, 0)])]))) p = []"
  using drift_frames [OF assms, where rnd = rnd] by blast

theorem drifting_particle_leaves_at_81_witness:
  "fl ieee (real_of_int 805) = real_of_int 805 \<and> fl ieee (50 * tenth ieee) = 5 \<and>
   width example_app = 800 \<and> 150 \<le> height example_app \<and>
   canvas_coords (canvas example_app) 2 = [400, 150, 405, 155] \<and>
   snd (run_frames 79 ieee example_rnd example_app [(50, Animate_explosion [(2, 50, 0)])]) =
     [(50, Animate_explosion [(2, 50, 0)])] \<and>
   canvas_coords
     (canvas (fst (run_frames 79 ieee example_rnd example_app [(50, Animate_explosion [(2, 50, 0)])]))) 2 =
     [795, 150, 800, 155] \<and>
   snd (run_frames 81 ieee example_rnd example_app [(50, Animate_explosion [(2, 50, 0)])]) = []"
proof -
  note t = drifting_particle_leaves_at_81
    [OF ieee_ints ieee_50_tenths example_dims example_drift_start, of example_rnd]
  from t have "snd (run_frames 79 ieee example_rnd example_app [(50, Animate_explosion [(2, 50, 0)])]) =
      [(50, Animate_explosion [(2, 50, 0)])] \<and>
    canvas_coords
      (canvas (fst (run_frames 79 ieee example_rnd example_app [(50, Animate_explosion [(2, 50, 0)])]))) 2 =
      [400 + 5 * real (79::nat), 150, 405 + 5 * real (79::nat), 155]"
    by (elim conjE allE [of _ 79]) simp
  moreover have "fl ieee (real_of_int 805) = real_of_int 805"
    by (rule ieee_int) simp
  ultimately show ?thesis
    using t example_dims example_drift_start ieee_50_tenths by simp
qed

text \<open>
  The claim as the specification words it fails: after exactly 80 frames the particle of
  the scenario has not been removed. It is still listed and still on the canvas, at
  x = 800, which does not exceed 800.
\<close>

theorem drifting_particle_after_80_frames:
  "snd (run_frames 80 ieee example_rnd example_app [(50, Animate_explosion [(2, 50, 0)])]) =
     [(50, Animate_explosion [(2, 50, 0)])] \<and>
   canvas_coords
     (canvas (fst (run_frames 80 ieee example_rnd example_app [(50, Animate_explosion [(2, 50, 0)])]))) 2 =
     [800, 150, 805, 155]"
  using drift_frames(1)
    [OF ieee_ints ieee_50_tenths example_dims example_drift_start,
     where k = 80 and rnd = example_rnd]
  by simp

section \<open>Creating the particles\<close>

lemma explode_body_eq:
  "explode_body ar x y d (c, ps) =
     (c\<lparr>items := (items c)(next_id c \<mapsto>
            \<lparr>bbox = (x, y, x + 5, y + 5), fill = colors ! choice d, outline = colors ! choice d\<rparr>),
        next_id := Suc (next_id c)\<rparr>,
      ps @ [(next_id c, fl ar (distance d * fcos ar (angle d)),
             fl ar (distance d * fsin ar (angle d)))])"
  by (simp add: explode_body_def create_oval_def Let_def)

lemma explode_fold_snd:
  "snd (fold (explode_body ar x y) ds (c, ps)) =
     ps @ map (\<lambda>(j, d). (j, fl ar (distance d * fcos ar (angle d)),
                           fl ar (distance d * fsin ar (angle d))))
            (enumerate (next_id c) ds)"
  by (induction ds arbitrary: c ps) (simp_all add: explode_body_eq)

lemma explode_fold_next_id:
  "next_id (fst (fold (explode_body ar x y) ds (c, ps))) = next_id c + length ds"
  by (induction ds arbitrary: c ps) (simp_all add: explode_body_eq)

lemma explode_fold_items:
  "items (fst (fold (explode_body ar x y) ds (c, ps))) j =
     (if next_id c \<le> j \<and> j < next_id c + length ds
      then Some \<lparr>bbox = (x, y, x + 5, y + 5),
                 fill = colors ! choice (ds ! (j - next_id c)),
                 outline = colors ! choice (ds ! (j - next_id c))\<rparr>
      else items c j)"
proof (induction ds arbitrary: c ps)
  case Nil
  show ?case by auto
next
  case (Cons d ds)
  show ?case
    by (simp add: explode_body_eq Cons.IH nth_Cons')
qed

lemma explode_particles_handles:
  "map fst (snd (explode_particles ar rnd c x y)) = [next_id c..<next_id c + 30]"
  by (simp add: explode_particles_def explode_fold_snd case_prod_unfold o_def)

lemma explode_particles_mem:
  assumes "p \<in> set (snd (explode_particles ar rnd c x y))"
  shows "\<exists>k<30. p = (next_id c + k, fl ar (distance (rnd k) * fcos ar (angle (rnd k))),
                       fl ar (distance (rnd k) * fsin ar (angle (rnd k))))"
proof -
  from assms obtain j d where jd: "(j, d) \<in> set (enumerate (next_id c) (map rnd [0..<30]))"
    and p: "p = (j, fl ar (distance d * fcos ar (angle d)), fl ar (distance d * fsin ar (angle d)))"
    by (auto simp add: explode_particles_def explode_fold_snd)
  from jd have r: "next_id c \<le> j" "j < 30 + next_id c" "map rnd [0..<30] ! (j - next_id c) = d"
    by (simp_all add: in_set_enumerate_eq)
  then have "j - next_id c < 30" by simp
  moreover from this r have "d = rnd (j - next_id c)" by simp
  moreover from r have "j = next_id c + (j - next_id c)" by simp
  ultimately show ?thesis using p by blast
qed

lemma explode_particles_item:
  "k < 30 \<Longrightarrow>
   items (fst (explode_particles ar rnd c x y)) (next_id c + k) =
     Some \<lparr>bbox = (real_of_int x, real_of_int y, real_of_int x + 5, real_of_int y + 5),
           fill = colors ! choice (rnd k), outline = colors ! choice (rnd k)\<rparr>"
  by (simp add: explode_particles_def explode_fold_items)

lemma polar_norm: "sqrt ((d * cos t)\<^sup>2 + (d * sin t)\<^sup>2) = \<bar>d\<bar>"
proof -
  have "(d * cos t)\<^sup>2 + (d * sin t)\<^sup>2 = d\<^sup>2 * ((cos t)\<^sup>2 + (sin t)\<^sup>2)"
    by (simp only: power_mult_distrib distrib_left)
  then show ?thesis by simp
qed

lemma explode_unfold:
  "explode ar rnd a rocket x y =
     animate_explosion ar
       (a\<lparr>canvas := fst (explode_particles ar rnd (canvas_delete (canvas a) rocket) x y)\<rparr>)
       (snd (explode_particles ar rnd (canvas_delete (canvas a) rocket) x y))"
  by (simp add: explode_def split: prod.splits)


lemma example_draws: "\<forall>i<30. draw_ok (example_rnd i)"
  by (simp add: example_rnd_def draw_ok_def colors_def)


section \<open>Every explosion ends\<close>

subsection \<open>Rounded steps make progress\<close>

lemma acc_abs:
  assumes "\<forall>u. \<bar>fl ar u - u\<bar> \<le> \<bar>u\<bar> / 2 ^ 53"
  shows "99 / 100 * \<bar>u\<bar> \<le> \<bar>fl ar u\<bar>"
proof -
  from assms have "\<bar>fl ar u - u\<bar> \<le> \<bar>u\<bar> / 2 ^ 53" by blast
  moreover have "\<bar>u\<bar> / 2 ^ 53 \<le> \<bar>u\<bar> / 100" by (intro divide_left_mono) simp_all
  ultimately show ?thesis by linarith
qed

lemma progress_up:
  assumes acc: "\<forall>u. \<bar>fl ar u - u\<bar> \<le> \<bar>u\<bar> / 2 ^ 53"
    and "1 \<le> s" and "0 \<le> u" and "fl ar (u + s) \<le> w" and "w \<le> 2 ^ 40"
  shows "u + 1 / 2 \<le> fl ar (u + s)"
proof -
  define v where "v = u + s"
  have v: "0 < v" using assms(2,3) by (simp add: v_def)
  from acc have e: "\<bar>fl ar v - v\<bar> \<le> \<bar>v\<bar> / 2 ^ 53" by blast
  have "\<bar>v\<bar> / 2 ^ 53 \<le> \<bar>v\<bar> / 2" by (intro divide_left_mono) simp_all
  with e v have "v / 2 \<le> fl ar v" by linarith
  with assms(4,5) have "v \<le> 2 ^ 41" by (simp add: v_def)
  then have "\<bar>v\<bar> / 2 ^ 53 \<le> 2 ^ 41 / 2 ^ 53" using v by (intro divide_right_mono) simp_all
  also have "\<dots> \<le> (1 / 2 :: real)" by simp
  finally have "\<bar>fl ar v - v\<bar> \<le> 1 / 2" using e by linarith
  then have "\<bar>fl ar (u + s) - (u + s)\<bar> \<le> 1 / 2" unfolding v_def .
  then show ?thesis using assms(2) by linarith
qed

lemma progress_down:
  assumes acc: "\<forall>u. \<bar>fl ar u - u\<bar> \<le> \<bar>u\<bar> / 2 ^ 53"
    and "s \<le> - 1" and "u \<le> w" and "0 \<le> fl ar (u + s)" and "w \<le> 2 ^ 40"
  shows "fl ar (u + s) \<le> u - 1 / 2"
proof -
  define v where "v = u + s"
  from acc have e: "\<bar>fl ar v - v\<bar> \<le> \<bar>v\<bar> / 2 ^ 53" by blast
  have half: "\<bar>v\<bar> / 2 ^ 53 \<le> \<bar>v\<bar> / 2" by (intro divide_left_mono) simp_all
  have v0: "0 \<le> v"
  proof (rule ccontr)
    assume "\<not> 0 \<le> v"
    then have "v < 0" by simp
    with e half have "fl ar v < 0" by linarith
    with assms(4) show False by (simp add: v_def)
  qed
  have "v \<le> 2 ^ 40" using assms(2,3,5) by (simp add: v_def)
  then have "\<bar>v\<bar> / 2 ^ 53 \<le> 2 ^ 40 / 2 ^ 53" using v0 by (intro divide_right_mono) simp_all
  also have "\<dots> \<le> (1 / 2 :: real)" by simp
  finally have "\<bar>fl ar v - v\<bar> \<le> 1 / 2" using e by linarith
  then have "\<bar>fl ar (u + s) - (u + s)\<bar> \<le> 1 / 2" unfolding v_def .
  then show ?thesis using assms(2) by linarith
qed

text \<open>
  A coordinate that has stayed between 0 and \<open>w\<close> through frames 1 to \<open>k\<close>, under a step of
  magnitude at least 1, bounds the number of frames.
\<close>

lemma axis_bound:
  fixes X :: "nat \<Rightarrow> real"
  assumes acc: "\<forall>u. \<bar>fl ar u - u\<bar> \<le> \<bar>u\<bar> / 2 ^ 53"
    and s: "1 \<le> \<bar>s\<bar>" and w: "w \<le> 2 ^ 40"
    and step: "\<forall>j. X (Suc j) = fl ar (X j + s)"
    and inside: "\<forall>j. 1 \<le> j \<and> j \<le> k \<longrightarrow> 0 \<le> X j \<and> X j \<le> w"
    and k: "1 \<le> k"
  shows "real k - 1 \<le> 2 * w"
proof (cases "0 \<le> s")
  case True
  with s have s1: "1 \<le> s" by simp
  have "1 \<le> j \<Longrightarrow> j \<le> k \<Longrightarrow> (real j - 1) / 2 \<le> X j" for j
  proof (induction j)
    case 0
    then show ?case by simp
  next
    case (Suc j)
    show ?case
    proof (cases "j = 0")
      case True
      from inside k have "0 \<le> X 1" by blast
      with True show ?thesis by simp
    next
      case False
      with Suc have j: "1 \<le> j" "j \<le> k" by simp_all
      with Suc.IH have prev: "(real j - 1) / 2 \<le> X j" by simp
      from inside j have u0: "0 \<le> X j" by blast
      from inside Suc.prems have "X (Suc j) \<le> w" by blast
      then have "fl ar (X j + s) \<le> w" using step by simp
      from progress_up [OF acc s1 u0 this w] step
      have st: "X j + 1 / 2 \<le> X (Suc j)" by simp
      show ?thesis using prev st by (simp add: field_simps)
    qed
  qed
  from this [of k] k have "(real k - 1) / 2 \<le> X k" by simp
  moreover from inside k have "X k \<le> w" by blast
  ultimately have "(real k - 1) / 2 \<le> w" by (rule order_trans)
  then show ?thesis by (simp add: field_simps)
next
  case False
  with s have s1: "s \<le> - 1" by simp
  have "1 \<le> j \<Longrightarrow> j \<le> k \<Longrightarrow> X j \<le> w - (real j - 1) / 2" for j
  proof (induction j)
    case 0
    then show ?case by simp
  next
    case (Suc j)
    show ?case
    proof (cases "j = 0")
      case True
      from inside k have "X 1 \<le> w" by blast
      with True show ?thesis by simp
    next
      case False
      with Suc have j: "1 \<le> j" "j \<le> k" by simp_all
      with Suc.IH have prev: "X j \<le> w - (real j - 1) / 2" by simp
      from inside j have u0: "X j \<le> w" by blast
      from inside Suc.prems have "0 \<le> X (Suc j)" by blast
      then have "0 \<le> fl ar (X j + s)" using step by simp
      from progress_down [OF acc s1 u0 this w] step
      have st: "X (Suc j) \<le> X j - 1 / 2" by simp
      show ?thesis using prev st by (simp add: field_simps)
    qed
  qed
  from this [of k] k have up: "X k \<le> w - (real k - 1) / 2" by simp
  from inside k have "0 \<le> X k" by blast
  from this up have "0 \<le> w - (real k - 1) / 2" by (rule order_trans)
  then show ?thesis by (simp add: field_simps)
qed

text \<open>The larger component of a particle's step is at least 1.\<close>

lemma trig_large: "7 / 10 \<le> \<bar>cos (t::real)\<bar> \<or> 7 / 10 \<le> \<bar>sin t\<bar>"
proof (rule ccontr)
  assume "\<not> (7 / 10 \<le> \<bar>cos t\<bar> \<or> 7 / 10 \<le> \<bar>sin t\<bar>)"
  then have c: "\<bar>cos t\<bar> < 7 / 10" and s: "\<bar>sin t\<bar> < 7 / 10" by simp_all
  have "\<bar>cos t\<bar> * \<bar>cos t\<bar> < 7 / 10 * (7 / 10)" using c by (intro mult_strict_mono') simp_all
  then have c2: "cos t * cos t < 49 / 100" by (simp only: abs_mult_self_eq)
  have "\<bar>sin t\<bar> * \<bar>sin t\<bar> < 7 / 10 * (7 / 10)" using s by (intro mult_strict_mono') simp_all
  then have s2: "sin t * sin t < 49 / 100" by (simp only: abs_mult_self_eq)
  have "cos t * cos t + sin t * sin t = 1"
    using sin_cos_squared_add2 [of t] by (simp only: power2_eq_square)
  with c2 s2 show False by linarith
qed

lemma step_component:
  assumes acc: "\<forall>u. \<bar>fl ar u - u\<bar> \<le> \<bar>u\<bar> / 2 ^ 53"
    and "20 \<le> d" and "69 / 100 \<le> \<bar>c\<bar>"
  shows "1 \<le> \<bar>fl ar (fl ar (d * c) * tenth ar)\<bar>"
proof -
  have "20 * (69 / 100) \<le> d * \<bar>c\<bar>" using assms(2,3) by (intro mult_mono) simp_all
  then have a: "138 / 10 \<le> \<bar>d * c\<bar>" using assms(2) by (simp add: abs_mult)
  have "99 / 100 * (138 / 10) \<le> 99 / 100 * \<bar>d * c\<bar>" using a by (intro mult_left_mono) simp_all
  also have "\<dots> \<le> \<bar>fl ar (d * c)\<bar>" by (rule acc_abs [OF acc])
  finally have b: "13 \<le> \<bar>fl ar (d * c)\<bar>" by simp
  have "99 / 100 * \<bar>1 / 10\<bar> \<le> \<bar>tenth ar\<bar>" unfolding tenth_def by (rule acc_abs [OF acc])
  then have t: "9 / 100 \<le> \<bar>tenth ar\<bar>" by simp
  have "13 * (9 / 100) \<le> \<bar>fl ar (d * c)\<bar> * \<bar>tenth ar\<bar>" using b t by (intro mult_mono) simp_all
  then have m: "117 / 100 \<le> \<bar>fl ar (d * c) * tenth ar\<bar>" by (simp add: abs_mult)
  have "99 / 100 * (117 / 100) \<le> 99 / 100 * \<bar>fl ar (d * c) * tenth ar\<bar>"
    using m by (intro mult_left_mono) simp_all
  also have "\<dots> \<le> \<bar>fl ar (fl ar (d * c) * tenth ar)\<bar>" by (rule acc_abs [OF acc])
  finally show ?thesis by simp
qed

lemma step_lower:
  assumes acc: "\<forall>u. \<bar>fl ar u - u\<bar> \<le> \<bar>u\<bar> / 2 ^ 53"
    and trig: "\<forall>t. \<bar>fcos ar t - cos t\<bar> \<le> 1 / 100 \<and> \<bar>fsin ar t - sin t\<bar> \<le> 1 / 100"
    and d: "20 \<le> d"
  shows "1 \<le> \<bar>fl ar (fl ar (d * fcos ar t) * tenth ar)\<bar> \<or>
    1 \<le> \<bar>fl ar (fl ar (d * fsin ar t) * tenth ar)\<bar>"
proof -
  from trig have c: "\<bar>fcos ar t - cos t\<bar> \<le> 1 / 100" and s: "\<bar>fsin ar t - sin t\<bar> \<le> 1 / 100"
    by blast+
  from trig_large [of t] show ?thesis
  proof
    assume "7 / 10 \<le> \<bar>cos t\<bar>"
    with c have "69 / 100 \<le> \<bar>fcos ar t\<bar>" by linarith
    from step_component [OF acc d this] show ?thesis ..
  next
    assume "7 / 10 \<le> \<bar>sin t\<bar>"
    with s have "69 / 100 \<le> \<bar>fsin ar t\<bar>" by linarith
    from step_component [OF acc d this] show ?thesis ..
  qed
qed

subsection \<open>A particle's last frame\<close>

lemma frames_listed_Suc:
  assumes "p \<in> set (snd ((explosion_step ar ^^ Suc n) (a, ps)))"
  shows "p \<in> set (snd ((explosion_step ar ^^ n) (a, ps)))"
proof -
  let ?S = "(explosion_step ar ^^ n) (a, ps)"
  have "subseq (snd (advance_particles ar (fst ?S) (snd ?S))) (snd ?S)"
    by (rule advance_particles_subseq)
  moreover from assms have "p \<in> set (snd (advance_particles ar (fst ?S) (snd ?S)))"
    unfolding explosion_step_Suc by simp
  ultimately show ?thesis by (rule subseq_member)
qed

lemma frames_listed_mono:
  "j \<le> n \<Longrightarrow> p \<in> set (snd ((explosion_step ar ^^ n) (a, ps))) \<Longrightarrow>
   p \<in> set (snd ((explosion_step ar ^^ j) (a, ps)))"
proof (induction n)
  case 0
  then show ?case by simp
next
  case (Suc n)
  show ?case
  proof (cases "j = Suc n")
    case True
    with Suc.prems show ?thesis by simp
  next
    case False
    with Suc.prems have "j \<le> n" by simp
    moreover from Suc.prems(2) have "p \<in> set (snd ((explosion_step ar ^^ n) (a, ps)))"
      by (rule frames_listed_Suc)
    ultimately show ?thesis by (rule Suc.IH)
  qed
qed

text \<open>A particle of the explosion that is no longer listed has no shape.\<close>

lemma frames_gone:
  assumes d: "distinct (map fst ps)" and p: "(i, dx, dy) \<in> set ps"
  shows "(i, dx, dy) \<notin> set (snd ((explosion_step ar ^^ n) (a, ps))) \<Longrightarrow>
    items (canvas (fst ((explosion_step ar ^^ n) (a, ps)))) i = None"
proof (induction n)
  case 0
  with p show ?case by simp
next
  case (Suc n)
  let ?S = "(explosion_step ar ^^ n) (a, ps)"
  have sub: "subseq (snd ?S) ps" by (rule frames_subseq)
  then have d': "distinct (map fst (snd ?S))" using d by (rule distinct_handles_subseq)
  from Suc.prems have out: "(i, dx, dy) \<notin> set (snd (advance_particles ar (fst ?S) (snd ?S)))"
    unfolding explosion_step_Suc by simp
  have "items (fst (advance_particles ar (fst ?S) (snd ?S))) i = None"
  proof (cases "(i, dx, dy) \<in> set (snd ?S)")
    case True
    with out d' have "\<not> survives ar (width (fst ?S)) (height (fst ?S)) (canvas (fst ?S)) (i, dx, dy)"
      by (simp add: advance_particles_snd)
    then show ?thesis
      using advance_fold_item [OF d' True, of ar "width (fst ?S)" "height (fst ?S)"
          "canvas (fst ?S)" "[]"]
      by (simp add: advance_particles_def)
  next
    case False
    then have none: "items (canvas (fst ?S)) i = None" by (rule Suc.IH)
    have "i \<notin> fst ` set (snd ?S)"
    proof
      assume "i \<in> fst ` set (snd ?S)"
      then obtain v where v: "(i, v) \<in> set (snd ?S)" by force
      with sub have in_ps: "(i, v) \<in> set ps" by (rule subseq_member)
      from d in_ps p have "v = (dx, dy)" by (rule eq_key_imp_eq_value)
      with v False show False by simp
    qed
    then have "items (fst (fold (advance_body ar (width (fst ?S)) (height (fst ?S))) (snd ?S)
        (canvas (fst ?S), []))) i = items (canvas (fst ?S)) i"
      by (rule advance_fold_other)
    with none show ?thesis by (simp add: advance_particles_def)
  qed
  then show ?case unfolding explosion_step_Suc by simp
qed

text \<open>The frame that drops a particle has moved it out of the rectangle.\<close>

lemma frames_leave:
  assumes d: "distinct (map fst ps)"
    and listed: "(i, dx, dy) \<in> set (snd ((explosion_step ar ^^ n) (a, ps)))"
    and dropped: "(i, dx, dy) \<notin> set (snd ((explosion_step ar ^^ Suc n) (a, ps)))"
    and c: "canvas_coords (canvas a) i = [x1, y1, x2, y2]"
  shows "\<not> in_bounds (width a) (height a)
      [((\<lambda>u. fl ar (u + fl ar (dx * tenth ar))) ^^ Suc n) x1,
       ((\<lambda>u. fl ar (u + fl ar (dy * tenth ar))) ^^ Suc n) y1,
       ((\<lambda>u. fl ar (u + fl ar (dx * tenth ar))) ^^ Suc n) x2,
       ((\<lambda>u. fl ar (u + fl ar (dy * tenth ar))) ^^ Suc n) y2]"
proof -
  let ?S = "(explosion_step ar ^^ n) (a, ps)"
  have "subseq (snd ?S) ps" by (rule frames_subseq)
  then have d': "distinct (map fst (snd ?S))" using d by (rule distinct_handles_subseq)
  have dims: "width (fst ?S) = width a" "height (fst ?S) = height a"
    using frames_dims [of n ar a ps] by simp_all
  from dropped have "(i, dx, dy) \<notin> set (snd (advance_particles ar (fst ?S) (snd ?S)))"
    unfolding explosion_step_Suc by simp
  with listed d' have ns: "\<not> survives ar (width a) (height a) (canvas (fst ?S)) (i, dx, dy)"
    by (simp add: advance_particles_snd dims)
  note pos = frames_coords [OF d listed c]
  from ns show ?thesis
    unfolding survives_coords [OF pos] by (simp add: in_bounds_def)
qed

text \<open>
  A particle whose step has a component of magnitude at least 1 is listed for at most
  2 max(width, height) + 1 frames.
\<close>

lemma frames_bound:
  assumes acc: "\<forall>u. \<bar>fl ar u - u\<bar> \<le> \<bar>u\<bar> / 2 ^ 53"
    and d: "distinct (map fst ps)"
    and listed: "(i, dx, dy) \<in> set (snd ((explosion_step ar ^^ n) (a, ps)))"
    and c: "canvas_coords (canvas a) i = [x1, y1, x2, y2]"
    and s: "1 \<le> \<bar>fl ar (dx * tenth ar)\<bar> \<or> 1 \<le> \<bar>fl ar (dy * tenth ar)\<bar>"
    and w: "width a \<le> 2 ^ 40" and h: "height a \<le> 2 ^ 40"
    and n: "1 \<le> n"
  shows "real n - 1 \<le> 2 * real_of_int (max (width a) (height a))"
proof -
  define X where "X j = ((\<lambda>u. fl ar (u + fl ar (dx * tenth ar))) ^^ j) x1" for j
  define Y where "Y j = ((\<lambda>u. fl ar (u + fl ar (dy * tenth ar))) ^^ j) y1" for j
  have stepX: "\<forall>j. X (Suc j) = fl ar (X j + fl ar (dx * tenth ar))" by (simp add: X_def)
  have stepY: "\<forall>j. Y (Suc j) = fl ar (Y j + fl ar (dy * tenth ar))" by (simp add: Y_def)
  have inside: "0 \<le> X j \<and> X j \<le> real_of_int (width a) \<and>
      0 \<le> Y j \<and> Y j \<le> real_of_int (height a)" if "1 \<le> j" "j \<le> n" for j
  proof -
    from that(1) obtain m where m: "j = Suc m" by (cases j) simp_all
    from that(2) listed have l: "(i, dx, dy) \<in> set (snd ((explosion_step ar ^^ j) (a, ps)))"
      by (rule frames_listed_mono)
    from frames_in_bounds [OF d l [unfolded m]]
    have "in_bounds (width a) (height a)
        (canvas_coords (canvas (fst ((explosion_step ar ^^ j) (a, ps)))) i)"
      unfolding m by blast
    then show ?thesis
      unfolding frames_coords [OF d l c] by (simp add: in_bounds_def X_def Y_def)
  qed
  have wr: "real_of_int (width a) \<le> 2 ^ 40" using w by simp
  have hr: "real_of_int (height a) \<le> 2 ^ 40" using h by simp
  from s have "real n - 1 \<le> 2 * real_of_int (width a) \<or> real n - 1 \<le> 2 * real_of_int (height a)"
  proof
    assume s1: "1 \<le> \<bar>fl ar (dx * tenth ar)\<bar>"
    have "\<forall>j. 1 \<le> j \<and> j \<le> n \<longrightarrow> 0 \<le> X j \<and> X j \<le> real_of_int (width a)"
      using inside by blast
    from axis_bound [OF acc s1 wr stepX this n] show ?thesis ..
  next
    assume s1: "1 \<le> \<bar>fl ar (dy * tenth ar)\<bar>"
    have "\<forall>j. 1 \<le> j \<and> j \<le> n \<longrightarrow> 0 \<le> Y j \<and> Y j \<le> real_of_int (height a)"
      using inside by blast
    from axis_bound [OF acc s1 hr stepY this n] show ?thesis ..
  qed
  then show ?thesis by (auto simp add: max_def)
qed

lemma particle_leaves:
  assumes acc: "\<forall>u. \<bar>fl ar u - u\<bar> \<le> \<bar>u\<bar> / 2 ^ 53"
    and d: "distinct (map fst ps)"
    and p: "(i, dx, dy) \<in> set ps"
    and c: "canvas_coords (canvas a) i = [x1, y1, x2, y2]"
    and s: "1 \<le> \<bar>fl ar (dx * tenth ar)\<bar> \<or> 1 \<le> \<bar>fl ar (dy * tenth ar)\<bar>"
    and w: "width a \<le> 2 ^ 40" and h: "height a \<le> 2 ^ 40"
  shows "\<exists>K \<le> nat (2 * max (width a) (height a)) + 1.
    (\<forall>n<K. (i, dx, dy) \<in> set (snd ((explosion_step ar ^^ Suc n) (a, ps))) \<and>
       canvas_coords (canvas (fst ((explosion_step ar ^^ Suc n) (a, ps)))) i =
         [((\<lambda>u. fl ar (u + fl ar (dx * tenth ar))) ^^ Suc n) x1,
          ((\<lambda>u. fl ar (u + fl ar (dy * tenth ar))) ^^ Suc n) y1,
          ((\<lambda>u. fl ar (u + fl ar (dx * tenth ar))) ^^ Suc n) x2,
          ((\<lambda>u. fl ar (u + fl ar (dy * tenth ar))) ^^ Suc n) y2]) \<and>
    \<not> in_bounds (width a) (height a)
      [((\<lambda>u. fl ar (u + fl ar (dx * tenth ar))) ^^ Suc K) x1,
       ((\<lambda>u. fl ar (u + fl ar (dy * tenth ar))) ^^ Suc K) y1,
       ((\<lambda>u. fl ar (u + fl ar (dx * tenth ar))) ^^ Suc K) x2,
       ((\<lambda>u. fl ar (u + fl ar (dy * tenth ar))) ^^ Suc K) y2] \<and>
    (\<forall>n\<ge>K. (i, dx, dy) \<notin> set (snd ((explosion_step ar ^^ Suc n) (a, ps))) \<and>
       canvas_coords (canvas (fst ((explosion_step ar ^^ Suc n) (a, ps)))) i = [])"
proof -
  define B where "B = nat (2 * max (width a) (height a)) + 1"
  define P where "P n \<longleftrightarrow> (i, dx, dy) \<notin> set (snd ((explosion_step ar ^^ Suc n) (a, ps)))" for n
  have PB: "P B"
    unfolding P_def
  proof
    assume l: "(i, dx, dy) \<in> set (snd ((explosion_step ar ^^ Suc B) (a, ps)))"
    have "real (Suc B) - 1 \<le> 2 * real_of_int (max (width a) (height a))"
      using acc d l c s w h by (rule frames_bound) simp
    then have "real B \<le> real_of_int (2 * max (width a) (height a))" by simp
    then have "int B \<le> 2 * max (width a) (height a)" by linarith
    then show False unfolding B_def by linarith
  qed
  define K where "K = (LEAST n. P n)"
  have PK: "P K" unfolding K_def using PB by (rule LeastI)
  have KB: "K \<le> B" unfolding K_def using PB by (rule Least_le)
  have before: "\<not> P n" if "n < K" for n
    using that unfolding K_def by (rule not_less_Least)
  have listedK: "(i, dx, dy) \<in> set (snd ((explosion_step ar ^^ K) (a, ps)))"
  proof (cases K)
    case 0
    with p show ?thesis by simp
  next
    case (Suc m)
    then have "m < K" by simp
    from before [OF this] show ?thesis unfolding P_def Suc by simp
  qed
  from PK have droppedK: "(i, dx, dy) \<notin> set (snd ((explosion_step ar ^^ Suc K) (a, ps)))"
    unfolding P_def .
  have early: "(i, dx, dy) \<in> set (snd ((explosion_step ar ^^ Suc n) (a, ps))) \<and>
       canvas_coords (canvas (fst ((explosion_step ar ^^ Suc n) (a, ps)))) i =
         [((\<lambda>u. fl ar (u + fl ar (dx * tenth ar))) ^^ Suc n) x1,
          ((\<lambda>u. fl ar (u + fl ar (dy * tenth ar))) ^^ Suc n) y1,
          ((\<lambda>u. fl ar (u + fl ar (dx * tenth ar))) ^^ Suc n) x2,
          ((\<lambda>u. fl ar (u + fl ar (dy * tenth ar))) ^^ Suc n) y2]" if "n < K" for n
  proof -
    from before [OF that] have l: "(i, dx, dy) \<in> set (snd ((explosion_step ar ^^ Suc n) (a, ps)))"
      unfolding P_def by simp
    from l frames_coords [OF d l c] show ?thesis ..
  qed
  have late: "(i, dx, dy) \<notin> set (snd ((explosion_step ar ^^ Suc n) (a, ps))) \<and>
       canvas_coords (canvas (fst ((explosion_step ar ^^ Suc n) (a, ps)))) i = []" if "K \<le> n" for n
  proof -
    have out: "(i, dx, dy) \<notin> set (snd ((explosion_step ar ^^ Suc n) (a, ps)))"
    proof
      assume l: "(i, dx, dy) \<in> set (snd ((explosion_step ar ^^ Suc n) (a, ps)))"
      from that have "Suc K \<le> Suc n" by simp
      from this l have "(i, dx, dy) \<in> set (snd ((explosion_step ar ^^ Suc K) (a, ps)))"
        by (rule frames_listed_mono)
      with droppedK show False ..
    qed
    from frames_gone [OF d p out] have
      "canvas_coords (canvas (fst ((explosion_step ar ^^ Suc n) (a, ps)))) i = []"
      by (simp only: coords_empty)
    with out show ?thesis ..
  qed
  note leave = frames_leave [OF d listedK droppedK c]
  from KB early leave late show ?thesis unfolding B_def by blast
qed

subsection \<open>Termination of the advance loop\<close>

lemma explode_particles_distinct: "distinct (map fst (snd (explode_particles ar rnd c x y)))"
  unfolding explode_particles_handles by simp

lemma run_frames_after_first:
  "run_frames (Suc n) ar rnd a [(d, Animate_explosion ps)] =
     run_frames n ar rnd (fst (animate_explosion ar a ps)) (snd (animate_explosion ar a ps))"
  by (simp add: case_prod_unfold)

lemma after_explode_eq:
  "after_explode ar rnd a rocket x y n =
     run_frames (Suc n) ar rnd
       (a\<lparr>canvas := fst (explode_particles ar rnd (canvas_delete (canvas a) rocket) x y)\<rparr>)
       [(0, Animate_explosion (snd (explode_particles ar rnd (canvas_delete (canvas a) rocket) x y)))]"
  unfolding after_explode_def run_frames_after_first explode_unfold
  by (simp add: case_prod_unfold)

lemma after_explode_fst:
  "fst (after_explode ar rnd a rocket x y n) =
     fst ((explosion_step ar ^^ Suc n)
       (a\<lparr>canvas := fst (explode_particles ar rnd (canvas_delete (canvas a) rocket) x y)\<rparr>,
        snd (explode_particles ar rnd (canvas_delete (canvas a) rocket) x y)))"
  unfolding after_explode_eq run_frames_explosion by simp

lemma after_explode_queued:
  "queued_particles (snd (after_explode ar rnd a rocket x y n)) =
     snd ((explosion_step ar ^^ Suc n)
       (a\<lparr>canvas := fst (explode_particles ar rnd (canvas_delete (canvas a) rocket) x y)\<rparr>,
        snd (explode_particles ar rnd (canvas_delete (canvas a) rocket) x y)))"
  unfolding after_explode_eq run_frames_explosion by (simp add: queued_particles_def)

lemma after_explode_empty:
  "(snd (after_explode ar rnd a rocket x y n) = []) =
     (snd ((explosion_step ar ^^ Suc n)
       (a\<lparr>canvas := fst (explode_particles ar rnd (canvas_delete (canvas a) rocket) x y)\<rparr>,
        snd (explode_particles ar rnd (canvas_delete (canvas a) rocket) x y))) = [])"
  unfolding after_explode_eq run_frames_explosion by simp

lemma tenth_norm: "sqrt ((d * cos t * 0.1)\<^sup>2 + (d * sin t * 0.1)\<^sup>2) = \<bar>d\<bar> * 0.1"
proof -
  have "d * cos t * 0.1 = (d * 0.1) * cos t" and "d * sin t * 0.1 = (d * 0.1) * sin t"
    by simp_all
  then have "sqrt ((d * cos t * 0.1)\<^sup>2 + (d * sin t * 0.1)\<^sup>2) = \<bar>d * 0.1\<bar>"
    by (simp only: polar_norm)
  then show ?thesis by (simp add: abs_mult)
qed

text \<open>What \<^verbatim>\<open>explode\<close> creates: the particles, their steps and their shapes.\<close>

lemma explode_particles_start:
  assumes ok: "\<forall>i<30. draw_ok (rnd i)"
    and acc: "\<forall>u. \<bar>fl ar u - u\<bar> \<le> \<bar>u\<bar> / 2 ^ 53"
    and trig: "\<forall>t. \<bar>fcos ar t - cos t\<bar> \<le> 1 / 100 \<and> \<bar>fsin ar t - sin t\<bar> \<le> 1 / 100"
    and p: "(i, dx, dy) \<in> set (snd (explode_particles ar rnd c x y))"
  shows "1 \<le> \<bar>fl ar (dx * tenth ar)\<bar> \<or> 1 \<le> \<bar>fl ar (dy * tenth ar)\<bar>"
    and "canvas_coords (fst (explode_particles ar rnd c x y)) i =
      [real_of_int x, real_of_int y, real_of_int x + 5, real_of_int y + 5]"
proof -
  from explode_particles_mem [OF p] obtain k where k: "k < 30"
    and i: "i = next_id c + k"
    and dx: "dx = fl ar (distance (rnd k) * fcos ar (angle (rnd k)))"
    and dy: "dy = fl ar (distance (rnd k) * fsin ar (angle (rnd k)))"
    by auto
  from ok k have "draw_ok (rnd k)" by simp
  then have "20 \<le> distance (rnd k)" by (simp add: draw_ok_def)
  from step_lower [OF acc trig this, of "angle (rnd k)"]
  show "1 \<le> \<bar>fl ar (dx * tenth ar)\<bar> \<or> 1 \<le> \<bar>fl ar (dy * tenth ar)\<bar>"
    unfolding dx dy .
  show "canvas_coords (fst (explode_particles ar rnd c x y)) i =
      [real_of_int x, real_of_int y, real_of_int x + 5, real_of_int y + 5]"
    unfolding i canvas_coords_def explode_particles_item [OF k] by simp
qed

text \<open>
  Claim C9, as the program has it. Each frame displaces a particle by the doubles
  \<^verbatim>\<open>dx * 0.1\<close> and \<^verbatim>\<open>dy * 0.1\<close>. Without rounding the length of this step is exactly 0.1
  times the drawn distance, between 2 and 10; with rounding it is not, but the larger
  component of the step is still at least 1 in magnitude. The arithmetic is any one that
  rounds with a relative error of at most \<open>2\<^sup>-\<^sup>5\<^sup>3\<close> and whose cosine and sine are within
  0.01 of the true ones; width and height are at most \<open>2\<^sup>4\<^sup>0\<close>. Then every particle of an
  explosion leaves the rectangle [0, width] x [0, height]: there is a frame, among the
  first 2 max(width, height) + 2, up to which the particle is listed and sits at its origin
  displaced once per frame, in which the move puts it outside the rectangle, and from
  which on it is neither listed nor on the canvas. After that many frames nothing is
  registered any more: the advance loop of the explosion has ended.
\<close>

theorem explosion_ends:
  assumes "\<forall>i<30. draw_ok (rnd i)"
    and "\<forall>u. \<bar>fl ar u - u\<bar> \<le> \<bar>u\<bar> / 2 ^ 53"
    and "\<forall>t. \<bar>fcos ar t - cos t\<bar> \<le> 1 / 100 \<and> \<bar>fsin ar t - sin t\<bar> \<le> 1 / 100"
    and "width a \<le> 2 ^ 40" and "height a \<le> 2 ^ 40"
  shows "(\<forall>(i, dx, dy) \<in> set (snd (explode_particles ar rnd (canvas_delete (canvas a) rocket) x y_target)).
      (1 \<le> \<bar>fl ar (dx * tenth ar)\<bar> \<or> 1 \<le> \<bar>fl ar (dy * tenth ar)\<bar>) \<and>
      (\<exists>K \<le> nat (2 * max (width a) (height a)) + 1.
         (\<forall>n<K. (i, dx, dy) \<in> set (queued_particles (snd (after_explode ar rnd a rocket x y_target n))) \<and>
            canvas_coords (canvas (fst (after_explode ar rnd a rocket x y_target n))) i =
              [((\<lambda>u. fl ar (u + fl ar (dx * tenth ar))) ^^ Suc n) (real_of_int x),
               ((\<lambda>u. fl ar (u + fl ar (dy * tenth ar))) ^^ Suc n) (real_of_int y_target),
               ((\<lambda>u. fl ar (u + fl ar (dx * tenth ar))) ^^ Suc n) (real_of_int x + 5),
               ((\<lambda>u. fl ar (u + fl ar (dy * tenth ar))) ^^ Suc n) (real_of_int y_target + 5)]) \<and>
         \<not> in_bounds (width a) (height a)
              [((\<lambda>u. fl ar (u + fl ar (dx * tenth ar))) ^^ Suc K) (real_of_int x),
               ((\<lambda>u. fl ar (u + fl ar (dy * tenth ar))) ^^ Suc K) (real_of_int y_target),
               ((\<lambda>u. fl ar (u + fl ar (dx * tenth ar))) ^^ Suc K) (real_of_int x + 5),
               ((\<lambda>u. fl ar (u + fl ar (dy * tenth ar))) ^^ Suc K) (real_of_int y_target + 5)] \<and>
         (\<forall>n\<ge>K. (i, dx, dy) \<notin> set (queued_particles (snd (after_explode ar rnd a rocket x y_target n))) \<and>
            canvas_coords (canvas (fst (after_explode ar rnd a rocket x y_target n))) i = []))) \<and>
    (\<forall>n \<ge> nat (2 * max (width a) (height a)) + 1.
       snd (after_explode ar rnd a rocket x y_target n) = []) \<and>
    (\<forall>(i, dx, dy) \<in> set (snd (explode_particles exact rnd (canvas_delete (canvas a) rocket) x y_target)).
       0 < sqrt ((dx * 0.1)\<^sup>2 + (dy * 0.1)\<^sup>2) \<and>
       2 \<le> sqrt ((dx * 0.1)\<^sup>2 + (dy * 0.1)\<^sup>2) \<and>
       sqrt ((dx * 0.1)\<^sup>2 + (dy * 0.1)\<^sup>2) \<le> 10 \<and>
       (\<exists>k<30. sqrt ((dx * 0.1)\<^sup>2 + (dy * 0.1)\<^sup>2) = 0.1 * distance (rnd k)))"
proof (intro conjI)
  let ?c0 = "canvas_delete (canvas a) rocket"
  let ?ps = "snd (explode_particles ar rnd ?c0 x y_target)"
  let ?a0 = "a\<lparr>canvas := fst (explode_particles ar rnd ?c0 x y_target)\<rparr>"
  let ?B = "nat (2 * max (width a) (height a)) + 1"
  have d: "distinct (map fst ?ps)" by (rule explode_particles_distinct)
  have w: "width ?a0 \<le> 2 ^ 40" and h: "height ?a0 \<le> 2 ^ 40" using assms(4,5) by simp_all
  have leaves: "(1 \<le> \<bar>fl ar (dx * tenth ar)\<bar> \<or> 1 \<le> \<bar>fl ar (dy * tenth ar)\<bar>) \<and>
      (\<exists>K \<le> ?B.
         (\<forall>n<K. (i, dx, dy) \<in> set (queued_particles (snd (after_explode ar rnd a rocket x y_target n))) \<and>
            canvas_coords (canvas (fst (after_explode ar rnd a rocket x y_target n))) i =
              [((\<lambda>u. fl ar (u + fl ar (dx * tenth ar))) ^^ Suc n) (real_of_int x),
               ((\<lambda>u. fl ar (u + fl ar (dy * tenth ar))) ^^ Suc n) (real_of_int y_target),
               ((\<lambda>u. fl ar (u + fl ar (dx * tenth ar))) ^^ Suc n) (real_of_int x + 5),
               ((\<lambda>u. fl ar (u + fl ar (dy * tenth ar))) ^^ Suc n) (real_of_int y_target + 5)]) \<and>
         \<not> in_bounds (width a) (height a)
              [((\<lambda>u. fl ar (u + fl ar (dx * tenth ar))) ^^ Suc K) (real_of_int x),
               ((\<lambda>u. fl ar (u + fl ar (dy * tenth ar))) ^^ Suc K) (real_of_int y_target),
               ((\<lambda>u. fl ar (u + fl ar (dx * tenth ar))) ^^ Suc K) (real_of_int x + 5),
               ((\<lambda>u. fl ar (u + fl ar (dy * tenth ar))) ^^ Suc K) (real_of_int y_target + 5)] \<and>
         (\<forall>n\<ge>K. (i, dx, dy) \<notin> set (queued_particles (snd (after_explode ar rnd a rocket x y_target n))) \<and>
            canvas_coords (canvas (fst (after_explode ar rnd a rocket x y_target n))) i = []))"
    if p: "(i, dx, dy) \<in> set ?ps" for i dx dy
  proof -
    note s = explode_particles_start(1) [OF assms(1,2,3) p]
    have c: "canvas_coords (canvas ?a0) i =
        [real_of_int x, real_of_int y_target, real_of_int x + 5, real_of_int y_target + 5]"
      using explode_particles_start(2) [OF assms(1,2,3) p] by simp
    from particle_leaves [OF assms(2) d p c s w h] s show ?thesis
      unfolding after_explode_fst after_explode_queued by simp
  qed
  then show "\<forall>(i, dx, dy) \<in> set ?ps.
      (1 \<le> \<bar>fl ar (dx * tenth ar)\<bar> \<or> 1 \<le> \<bar>fl ar (dy * tenth ar)\<bar>) \<and>
      (\<exists>K \<le> ?B.
         (\<forall>n<K. (i, dx, dy) \<in> set (queued_particles (snd (after_explode ar rnd a rocket x y_target n))) \<and>
            canvas_coords (canvas (fst (after_explode ar rnd a rocket x y_target n))) i =
              [((\<lambda>u. fl ar (u + fl ar (dx * tenth ar))) ^^ Suc n) (real_of_int x),
               ((\<lambda>u. fl ar (u + fl ar (dy * tenth ar))) ^^ Suc n) (real_of_int y_target),
               ((\<lambda>u. fl ar (u + fl ar (dx * tenth ar))) ^^ Suc n) (real_of_int x + 5),
               ((\<lambda>u. fl ar (u + fl ar (dy * tenth ar))) ^^ Suc n) (real_of_int y_target + 5)]) \<and>
         \<not> in_bounds (width a) (height a)
              [((\<lambda>u. fl ar (u + fl ar (dx * tenth ar))) ^^ Suc K) (real_of_int x),
               ((\<lambda>u. fl ar (u + fl ar (dy * tenth ar))) ^^ Suc K) (real_of_int y_target),
               ((\<lambda>u. fl ar (u + fl ar (dx * tenth ar))) ^^ Suc K) (real_of_int x + 5),
               ((\<lambda>u. fl ar (u + fl ar (dy * tenth ar))) ^^ Suc K) (real_of_int y_target + 5)] \<and>
         (\<forall>n\<ge>K. (i, dx, dy) \<notin> set (queued_particles (snd (after_explode ar rnd a rocket x y_target n))) \<and>
            canvas_coords (canvas (fst (after_explode ar rnd a rocket x y_target n))) i = []))"
    by blast
  show "\<forall>n \<ge> ?B. snd (after_explode ar rnd a rocket x y_target n) = []"
  proof (intro allI impI)
    fix n
    assume n: "?B \<le> n"
    have "snd ((explosion_step ar ^^ Suc n) (?a0, ?ps)) = []"
    proof (rule ccontr)
      assume "snd ((explosion_step ar ^^ Suc n) (?a0, ?ps)) \<noteq> []"
      then obtain q where q: "q \<in> set (snd ((explosion_step ar ^^ Suc n) (?a0, ?ps)))"
        by (cases "snd ((explosion_step ar ^^ Suc n) (?a0, ?ps))") auto
      obtain i dx dy where e: "q = (i, dx, dy)" by (cases q)
      have "subseq (snd ((explosion_step ar ^^ Suc n) (?a0, ?ps))) ?ps" by (rule frames_subseq)
      from this q have "q \<in> set ?ps" by (rule subseq_member)
      then have "(i, dx, dy) \<in> set ?ps" unfolding e .
      from leaves [OF this] obtain K where "K \<le> ?B"
        and "\<forall>n\<ge>K. (i, dx, dy) \<notin> set (queued_particles (snd (after_explode ar rnd a rocket x y_target n)))"
        by blast
      with n have "(i, dx, dy) \<notin> set (queued_particles (snd (after_explode ar rnd a rocket x y_target n)))"
        by simp
      with q show False unfolding after_explode_queued e by simp
    qed
    then show "snd (after_explode ar rnd a rocket x y_target n) = []"
      unfolding after_explode_empty .
  qed
  let ?pe = "snd (explode_particles exact rnd ?c0 x y_target)"
  show "\<forall>(i, dx, dy) \<in> set ?pe.
       0 < sqrt ((dx * 0.1)\<^sup>2 + (dy * 0.1)\<^sup>2) \<and>
       2 \<le> sqrt ((dx * 0.1)\<^sup>2 + (dy * 0.1)\<^sup>2) \<and>
       sqrt ((dx * 0.1)\<^sup>2 + (dy * 0.1)\<^sup>2) \<le> 10 \<and>
       (\<exists>k<30. sqrt ((dx * 0.1)\<^sup>2 + (dy * 0.1)\<^sup>2) = 0.1 * distance (rnd k))"
  proof (intro ballI)
    fix p
    assume "p \<in> set ?pe"
    from explode_particles_mem [OF this] obtain k where k: "k < 30"
      and p: "p = (next_id ?c0 + k, distance (rnd k) * cos (angle (rnd k)),
                   distance (rnd k) * sin (angle (rnd k)))"
      by (auto simp add: exact_def)
    from assms(1) k have "draw_ok (rnd k)" by simp
    then have r: "20 \<le> distance (rnd k)" "distance (rnd k) \<le> 100"
      by (simp_all add: draw_ok_def)
    have n: "sqrt ((distance (rnd k) * cos (angle (rnd k)) * 0.1)\<^sup>2 +
        (distance (rnd k) * sin (angle (rnd k)) * 0.1)\<^sup>2) = 0.1 * distance (rnd k)"
      unfolding tenth_norm using r by simp
    have "0 < 0.1 * distance (rnd k)" "2 \<le> 0.1 * distance (rnd k)" "0.1 * distance (rnd k) \<le> 10"
      using r by simp_all
    with n k show "case p of (i, dx, dy) \<Rightarrow>
       0 < sqrt ((dx * 0.1)\<^sup>2 + (dy * 0.1)\<^sup>2) \<and>
       2 \<le> sqrt ((dx * 0.1)\<^sup>2 + (dy * 0.1)\<^sup>2) \<and>
       sqrt ((dx * 0.1)\<^sup>2 + (dy * 0.1)\<^sup>2) \<le> 10 \<and>
       (\<exists>k<30. sqrt ((dx * 0.1)\<^sup>2 + (dy * 0.1)\<^sup>2) = 0.1 * distance (rnd k))"
      by (subst p, unfold prod.case) metis
  qed
qed

lemma ieee_acc: "\<forall>u. \<bar>fl ieee u - u\<bar> \<le> \<bar>u\<bar> / 2 ^ 53"
  using ieee_accurate by blast

lemma ieee_trig: "\<forall>t. \<bar>fcos ieee t - cos t\<bar> \<le> 1 / 100 \<and> \<bar>fsin ieee t - sin t\<bar> \<le> 1 / 100"
proof (intro allI conjI)
  fix t :: real
  have "\<bar>double_round (cos t) - cos t\<bar> \<le> \<bar>cos t\<bar> / 2 ^ 53" by (rule double_round_accurate)
  also have "\<dots> \<le> 1 / 2 ^ 53" by (intro divide_right_mono abs_cos_le_one) simp
  also have "\<dots> \<le> (1 / 100 :: real)" by simp
  finally show "\<bar>fcos ieee t - cos t\<bar> \<le> 1 / 100" by (simp add: ieee_def)
  have "\<bar>double_round (sin t) - sin t\<bar> \<le> \<bar>sin t\<bar> / 2 ^ 53" by (rule double_round_accurate)
  also have "\<dots> \<le> 1 / 2 ^ 53" by (intro divide_right_mono abs_sin_le_one) simp
  also have "\<dots> \<le> (1 / 100 :: real)" by simp
  finally show "\<bar>fsin ieee t - sin t\<bar> \<le> 1 / 100" by (simp add: ieee_def)
qed

lemma ieee_one: "fl ieee 1 = 1"
  using ieee_int [of 1] by simp

lemma ieee_trig_zero: "fcos ieee 0 = 1" "fsin ieee 0 = 0"
  using ieee_one ieee_zero by (simp_all add: ieee_def)

lemma explode_particles_first:
  "(next_id c, fl ar (distance (rnd 0) * fcos ar (angle (rnd 0))),
      fl ar (distance (rnd 0) * fsin ar (angle (rnd 0))))
     \<in> set (snd (explode_particles ar rnd c x y))"
proof -
  have e: "map rnd [0..<30] = rnd 0 # map rnd [1..<30]" by (simp add: upt_conv_Cons)
  show ?thesis
    unfolding explode_particles_def explode_fold_snd e by simp
qed

lemma example_first_particle:
  "(3, 50, 0) \<in> set (snd (explode_particles ieee example_rnd
      (canvas_delete (canvas example_app) 1) 400 150))"
  using explode_particles_first [of "canvas_delete (canvas example_app) 1" ieee example_rnd 400 150]
  by (simp add: example_defs canvas_delete_def ieee_trig_zero ieee_eval)

lemma example_bounds: "width example_app \<le> 2 ^ 40" "height example_app \<le> 2 ^ 40"
  by (simp_all add: example_defs)

lemma example_frames: "nat (2 * max (width example_app) (height example_app)) + 1 = 1601"
  by (simp add: example_defs)

theorem explosion_ends_witness:
  "draw_ok (example_rnd 0) \<and> draw_ok (example_rnd 29) \<and>
   \<bar>fl ieee (1 / 10) - 1 / 10\<bar> \<le> \<bar>1 / 10\<bar> / 2 ^ 53 \<and>
   \<bar>fcos ieee 0 - cos 0\<bar> \<le> 1 / 100 \<and> \<bar>fsin ieee 0 - sin 0\<bar> \<le> 1 / 100 \<and>
   width example_app \<le> 2 ^ 40 \<and> height example_app \<le> 2 ^ 40 \<and>
   (3, 50, 0) \<in> set (snd (explode_particles ieee example_rnd
      (canvas_delete (canvas example_app) 1) 400 150)) \<and>
   (\<exists>K. K \<le> 1601 \<and>
      (3, 50, 0) \<notin> set (queued_particles (snd (after_explode ieee example_rnd example_app 1 400 150 K))) \<and>
      canvas_coords (canvas (fst (after_explode ieee example_rnd example_app 1 400 150 K))) 3 = []) \<and>
   snd (after_explode ieee example_rnd example_app 1 400 150 1601) = []"
proof -
  note t = explosion_ends [OF example_draws ieee_acc ieee_trig example_bounds,
      where rocket = 1 and x = 400 and y_target = 150, unfolded example_frames]
  from t have "\<forall>(i, dx, dy) \<in> set (snd (explode_particles ieee example_rnd
        (canvas_delete (canvas example_app) 1) 400 150)).
      \<exists>K \<le> 1601. \<forall>n\<ge>K.
        (i, dx, dy) \<notin> set (queued_particles (snd (after_explode ieee example_rnd example_app 1 400 150 n))) \<and>
        canvas_coords (canvas (fst (after_explode ieee example_rnd example_app 1 400 150 n))) i = []"
    by fast
  from bspec [OF this example_first_particle]
  have k: "\<exists>K. K \<le> 1601 \<and>
      (3, 50, 0) \<notin> set (queued_particles (snd (after_explode ieee example_rnd example_app 1 400 150 K))) \<and>
      canvas_coords (canvas (fst (after_explode ieee example_rnd example_app 1 400 150 K))) 3 = []"
    by auto
  from t have e: "snd (after_explode ieee example_rnd example_app 1 400 150 1601) = []"
    by simp
  have a1: "\<bar>fl ieee (1 / 10) - 1 / 10\<bar> \<le> \<bar>1 / 10\<bar> / 2 ^ 53" by (rule ieee_accurate)
  have a2: "\<bar>fcos ieee 0 - cos 0\<bar> \<le> 1 / 100" "\<bar>fsin ieee 0 - sin 0\<bar> \<le> 1 / 100"
    using ieee_trig by blast+
  have a3: "draw_ok (example_rnd 0)" "draw_ok (example_rnd 29)"
    using example_draws by simp_all
  from k e a1 a2 a3 example_bounds example_first_particle
  show ?thesis by blast
qed

text \<open>
  The claim as the specification words it fails where the arithmetic rounds. A particle
  drawn with the angle 0 and the distance 21 has (dx, dy) = (21, 0), and its step per
  frame is the double \<^verbatim>\<open>21 * 0.1\<close>, that is \<open>4728779608739021 / 2\<^sup>5\<^sup>1\<close>: the length of the step
  is not exactly 0.1 times 21.
\<close>

theorem step_length_is_rounded:
  "angle (example_rnd21 0) = 0 \<and> distance (example_rnd21 0) = 21 \<and>
   (3, 21, 0) \<in> set (snd (explode_particles ieee example_rnd21
      (canvas_delete (canvas example_app) 1) 400 150)) \<and>
   sqrt ((fl ieee (21 * tenth ieee))\<^sup>2 + (fl ieee (0 * tenth ieee))\<^sup>2) = 4728779608739021 / 2 ^ 51 \<and>
   (4728779608739021 / 2 ^ 51 :: real) \<noteq> 0.1 * 21"
proof -
  have m: "(3, 21, 0) \<in> set (snd (explode_particles ieee example_rnd21
      (canvas_delete (canvas example_app) 1) 400 150))"
    using explode_particles_first
      [of "canvas_delete (canvas example_app) 1" ieee example_rnd21 400 150]
    by (simp add: example_defs example_rnd21_def canvas_delete_def ieee_trig_zero ieee_eval)
  have z: "fl ieee (0 * tenth ieee) = 0" by (simp add: ieee_zero)
  have "sqrt ((fl ieee (21 * tenth ieee))\<^sup>2 + (fl ieee (0 * tenth ieee))\<^sup>2) =
      4728779608739021 / 2 ^ 51"
    unfolding z ieee_21_tenths by simp
  with m show ?thesis by (simp add: example_rnd21_def)
qed

section \<open>The rocket\<close>

lemma rocket_rising:
  "(\<forall>j<k. y_target < y_start - 10 * int j) \<Longrightarrow>
   run_frames k ar rnd a [(30, Animate_rocket r x y_start y_target)] =
     (a\<lparr>canvas := ((\<lambda>c. canvas_move ar c r 0 (- 10)) ^^ k) (canvas a)\<rparr>,
      [(30, Animate_rocket r x (y_start - 10 * int k) y_target)])"
proof (induction k arbitrary: a y_start)
  case 0
  show ?case by simp
next
  case (Suc k)
  from Suc.prems have first: "y_target < y_start" by force
  have rest: "\<forall>j<k. y_target < (y_start - 10) - 10 * int j"
  proof (intro allI impI)
    fix j
    assume "j < k"
    with Suc.prems have "y_target < y_start - 10 * int (Suc j)" by blast
    then show "y_target < (y_start - 10) - 10 * int j" by simp
  qed
  have c: "((\<lambda>c. canvas_move ar c r 0 (- 10)) ^^ Suc k) (canvas a) =
      ((\<lambda>c. canvas_move ar c r 0 (- 10)) ^^ k) (canvas_move ar (canvas a) r 0 (- 10))"
    by (simp only: funpow_Suc_right o_apply)
  have y: "y_start - 10 * int (Suc k) = y_start - 10 - 10 * int k" by simp
  have "run_frames (Suc k) ar rnd a [(30, Animate_rocket r x y_start y_target)] =
      run_frames k ar rnd (a\<lparr>canvas := canvas_move ar (canvas a) r 0 (- 10)\<rparr>)
        [(30, Animate_rocket r x (y_start - 10) y_target)]"
    using first by (simp add: animate_rocket_def)
  also have "\<dots> =
      (a\<lparr>canvas := ((\<lambda>c. canvas_move ar c r 0 (- 10)) ^^ k)
          (canvas_move ar (canvas a) r 0 (- 10))\<rparr>,
       [(30, Animate_rocket r x (y_start - 10 - 10 * int k) y_target)])"
    unfolding Suc.IH [OF rest] by simp
  finally show ?case unfolding c y .
qed

lemma run_frames_last:
  "run_frames (Suc k) ar rnd a q =
     run_frames 1 ar rnd (fst (run_frames k ar rnd a q)) (snd (run_frames k ar rnd a q))"
proof (induction k arbitrary: a q)
  case 0
  show ?case by simp
next
  case (Suc k)
  show ?case
  proof (cases q)
    case Nil
    then show ?thesis by simp
  next
    case (Cons e q')
    obtain delay cb where e: "e = (delay, cb)" by (cases e)
    obtain a' s where d: "dispatch ar rnd a cb = (a', s)" by (cases "dispatch ar rnd a cb")
    have "run_frames (Suc (Suc k)) ar rnd a q = run_frames (Suc k) ar rnd a' (q' @ s)"
      by (simp add: Cons e d)
    also have "\<dots> = run_frames 1 ar rnd (fst (run_frames k ar rnd a' (q' @ s)))
        (snd (run_frames k ar rnd a' (q' @ s)))"
      by (rule Suc.IH)
    also have "run_frames k ar rnd a' (q' @ s) = run_frames (Suc k) ar rnd a q"
      by (simp add: Cons e d)
    finally show ?thesis .
  qed
qed

lemma rocket_removed:
  assumes "rocket < next_id (canvas a)"
  shows "canvas_coords (canvas (fst (explode ar rnd a rocket x y))) rocket = []"
proof -
  let ?c = "canvas_delete (canvas a) rocket"
  let ?ps = "snd (explode_particles ar rnd ?c x y)"
  let ?a1 = "a\<lparr>canvas := fst (explode_particles ar rnd ?c x y)\<rparr>"
  have "rocket \<notin> set (map fst ?ps)"
    unfolding explode_particles_handles using assms by (simp add: next_id_delete)
  then have fresh: "rocket \<notin> fst ` set ?ps" by simp
  have "items (canvas (fst (explode ar rnd a rocket x y))) rocket =
      items (fst (advance_particles ar ?a1 ?ps)) rocket"
    by (simp add: explode_unfold animate_explosion_fst)
  also have "\<dots> = items (canvas ?a1) rocket"
    unfolding advance_particles_def by (rule advance_fold_other [OF fresh])
  also have "\<dots> = None"
    using assms by (simp add: explode_particles_def explode_fold_items next_id_delete items_delete)
  finally show ?thesis by (simp add: coords_empty)
qed

lemma rocket_scenario:
  "k \<le> 45 \<Longrightarrow>
   run_frames k ar rnd a [(30, Animate_rocket r x 600 150)] =
     (a\<lparr>canvas := ((\<lambda>c. canvas_move ar c r 0 (- 10)) ^^ k) (canvas a)\<rparr>,
      [(30, Animate_rocket r x (600 - 10 * int k) 150)])"
  by (rule rocket_rising) auto

lemma rocket_explodes:
  "run_frames 46 ar rnd a [(30, Animate_rocket r x 600 150)] =
     explode ar rnd (fst (run_frames 45 ar rnd a [(30, Animate_rocket r x 600 150)])) r x 150"
proof -
  have e: "(46::nat) = Suc 45" by simp
  show ?thesis
    unfolding e run_frames_last [of 45]
    by (simp add: rocket_scenario animate_rocket_def case_prod_unfold)
qed

text \<open>
  Claim C1. While the tracked height \<^verbatim>\<open>y_start\<close> is above \<^verbatim>\<open>y_target\<close>, a frame of the
  rocket moves its shape by (0, -10) and registers the next frame, after 30 ms, with the
  tracked height lowered by exactly 10; so after \<open>k\<close> such frames it is
  \<open>y_start - 10 k\<close>. Once the tracked height is at most \<^verbatim>\<open>y_target\<close>, the frame is the
  call of \<^verbatim>\<open>explode\<close> at (x, y_target), after which the shape of the rocket is gone (its
  handle had been issued by the canvas). A rocket that starts at 600 with target 150 has
  the tracked height 600 - 10 k > 150 after each of the first 44 frames and reaches 150
  after exactly 45 frames; frame 46 is the explosion. \<^verbatim>\<open>create_rocket\<close> draws the rocket at
  the bottom of the window and runs its first frame.
\<close>

theorem rocket_rises:
  "(y_target < y_start \<longrightarrow>
      animate_rocket ar rnd a rocket x y_start y_target =
        (a\<lparr>canvas := canvas_move ar (canvas a) rocket 0 (- 10)\<rparr>,
         [(30, Animate_rocket rocket x (y_start - 10) y_target)])) \<and>
   (y_start \<le> y_target \<longrightarrow>
      animate_rocket ar rnd a rocket x y_start y_target = explode ar rnd a rocket x y_target \<and>
      (rocket < next_id (canvas a) \<longrightarrow>
         canvas_coords (canvas (fst (explode ar rnd a rocket x y_target))) rocket = [])) \<and>
   ((\<forall>j<k. y_target < y_start - 10 * int j) \<longrightarrow>
      run_frames k ar rnd a [(30, Animate_rocket rocket x y_start y_target)] =
        (a\<lparr>canvas := ((\<lambda>c. canvas_move ar c rocket 0 (- 10)) ^^ k) (canvas a)\<rparr>,
         [(30, Animate_rocket rocket x (y_start - 10 * int k) y_target)])) \<and>
   (\<forall>n\<le>45.
      snd (run_frames n ar rnd a [(30, Animate_rocket rocket x 600 150)]) =
        [(30, Animate_rocket rocket x (600 - 10 * int n) 150)] \<and>
      (n < 45 \<longrightarrow> (150::int) < 600 - 10 * int n)) \<and>
   (600::int) - 10 * int 45 \<le> 150 \<and>
   run_frames 46 ar rnd a [(30, Animate_rocket rocket x 600 150)] =
     explode ar rnd (fst (run_frames 45 ar rnd a [(30, Animate_rocket rocket x 600 150)]))
       rocket x 150 \<and>
   (100 \<le> width a - 100 \<longrightarrow>
      create_rocket ar rnd a x y_target =
        Inr (animate_rocket ar rnd
          (a\<lparr>canvas := snd (create_oval (canvas a) (real_of_int x - 2)
              (real_of_int (height a) - 10) (real_of_int x + 2) (real_of_int (height a) + 10)
              ''white'' ''white'')\<rparr>)
          (next_id (canvas a)) x (height a) y_target))"
proof (intro conjI impI allI)
  assume "y_target < y_start"
  then show "animate_rocket ar rnd a rocket x y_start y_target =
        (a\<lparr>canvas := canvas_move ar (canvas a) rocket 0 (- 10)\<rparr>,
         [(30, Animate_rocket rocket x (y_start - 10) y_target)])"
    by (simp add: animate_rocket_def)
next
  assume "y_start \<le> y_target"
  then show "animate_rocket ar rnd a rocket x y_start y_target = explode ar rnd a rocket x y_target"
    by (simp add: animate_rocket_def)
next
  assume "rocket < next_id (canvas a)"
  then show "canvas_coords (canvas (fst (explode ar rnd a rocket x y_target))) rocket = []"
    by (rule rocket_removed)
next
  assume "\<forall>j<k. y_target < y_start - 10 * int j"
  then show "run_frames k ar rnd a [(30, Animate_rocket rocket x y_start y_target)] =
        (a\<lparr>canvas := ((\<lambda>c. canvas_move ar c rocket 0 (- 10)) ^^ k) (canvas a)\<rparr>,
         [(30, Animate_rocket rocket x (y_start - 10 * int k) y_target)])"
    by (rule rocket_rising)
next
  fix n :: nat
  assume "n \<le> 45"
  then show "snd (run_frames n ar rnd a [(30, Animate_rocket rocket x 600 150)]) =
        [(30, Animate_rocket rocket x (600 - 10 * int n) 150)]"
    by (simp add: rocket_scenario)
next
  fix n :: nat
  assume "n < 45"
  then show "(150::int) < 600 - 10 * int n" by simp
next
  show "(600::int) - 10 * int 45 \<le> 150" by simp
next
  show "run_frames 46 ar rnd a [(30, Animate_rocket rocket x 600 150)] =
     explode ar rnd (fst (run_frames 45 ar rnd a [(30, Animate_rocket rocket x 600 150)]))
       rocket x 150"
    by (rule rocket_explodes)
next
  assume "100 \<le> width a - 100"
  then show "create_rocket ar rnd a x y_target =
        Inr (animate_rocket ar rnd
          (a\<lparr>canvas := snd (create_oval (canvas a) (real_of_int x - 2)
              (real_of_int (height a) - 10) (real_of_int x + 2) (real_of_int (height a) + 10)
              ''white'' ''white'')\<rparr>)
          (next_id (canvas a)) x (height a) y_target)"
    by (simp add: create_rocket_def create_oval_def Let_def)
qed

theorem rocket_rises_witness:
  "(150::int) < 600 \<and>
   snd (animate_rocket ieee example_rnd example_app 2 400 600 150) =
     [(30, Animate_rocket 2 400 590 150)] \<and>
   (150::int) \<le> 150 \<and> 2 < next_id (canvas example_app) \<and>
   animate_rocket ieee example_rnd example_app 2 400 150 150 =
     explode ieee example_rnd example_app 2 400 150 \<and>
   canvas_coords (canvas (fst (explode ieee example_rnd example_app 2 400 150))) 2 = [] \<and>
   snd (run_frames 45 ieee example_rnd example_app [(30, Animate_rocket 2 400 600 150)]) =
     [(30, Animate_rocket 2 400 150 150)] \<and>
   100 \<le> width example_app - 100 \<and>
   (\<exists>r. create_rocket ieee example_rnd example_app 400 150 = Inr r \<and>
        snd r = [(30, Animate_rocket 3 400 590 150)])"
proof -
  note up = rocket_rises [where ar = ieee and rnd = example_rnd and a = example_app
      and rocket = 2 and x = 400 and y_start = 600 and y_target = 150 and k = 0]
  note top = rocket_rises [where ar = ieee and rnd = example_rnd and a = example_app
      and rocket = 2 and x = 400 and y_start = 150 and y_target = 150 and k = 0]
  have n: "2 < next_id (canvas example_app)" "100 \<le> width example_app - 100"
    "height example_app = 600" "next_id (canvas example_app) = 3"
    by (simp_all add: example_defs)
  from up have a: "snd (animate_rocket ieee example_rnd example_app 2 400 600 150) =
      [(30, Animate_rocket 2 400 590 150)]" by simp
  from top n(1) have b: "animate_rocket ieee example_rnd example_app 2 400 150 150 =
      explode ieee example_rnd example_app 2 400 150"
    and c: "canvas_coords (canvas (fst (explode ieee example_rnd example_app 2 400 150))) 2 = []"
    by simp_all
  from up have d: "snd (run_frames 45 ieee example_rnd example_app
      [(30, Animate_rocket 2 400 600 150)]) = [(30, Animate_rocket 2 400 150 150)]"
    by (elim conjE allE [of _ 45]) simp
  from up n(2) have "create_rocket ieee example_rnd example_app 400 150 =
      Inr (animate_rocket ieee example_rnd
          (example_app\<lparr>canvas := snd (create_oval (canvas example_app) (real_of_int 400 - 2)
              (real_of_int (height example_app) - 10) (real_of_int 400 + 2)
              (real_of_int (height example_app) + 10) ''white'' ''white'')\<rparr>)
          (next_id (canvas example_app)) 400 (height example_app) 150)"
    by blast
  then have e: "\<exists>r. create_rocket ieee example_rnd example_app 400 150 = Inr r \<and>
        snd r = [(30, Animate_rocket 3 400 590 150)]"
    by (simp add: n(3,4) animate_rocket_def)
  from a b c d e n(1,2) show ?thesis by simp
qed

end
